theory Spec2Isabelle
  imports Complex_Main "HOL-Library.Multiset"
begin

section \<open>Data model (types.ts)\<close>

text \<open>
  A TypeScript \<open>number\<close> that holds a coordinate is modelled as a real: pointer positions
  are quotients by the display scale, and distances are square roots. Identifiers are
  millisecond timestamps plus an index and are modelled as integers. The fields \<open>x\<close>
  and \<open>y\<close> of a point are called \<open>px\<close> and \<open>py\<close>, and the field \<open>id\<close> of an annotation
  is called \<open>annId\<close>, since the short names are wanted for variables and \<open>id\<close> is the
  identity function of HOL.
\<close>

record Point =
  px :: real
  py :: real

datatype AnnotationType = General | Actionable

datatype DisplayFilter = FilterAll | FilterGeneral | FilterActionable

record Annotation =
  annId :: int
  point :: Point
  description :: string
  elementType :: string
  annotationType :: AnnotationType

section \<open>Ordering and numbering (App.tsx, sortedAnnotations / filteredAnnotations / displayNumbers)\<close>

text \<open>
  The comparator handed to \<open>Array.prototype.sort\<close>: the difference of the \<open>y\<close>
  coordinates when they differ, the difference of the \<open>x\<close> coordinates otherwise. The
  sort uses only its sign, and the rounded difference of two finite numbers has the sign
  of the exact one.
\<close>

definition compareAnnotations :: "Annotation \<Rightarrow> Annotation \<Rightarrow> real" where
  "compareAnnotations a b =
     (if py (point a) \<noteq> py (point b) then py (point a) - py (point b)
      else px (point a) - px (point b))"

text \<open>
  \<open>[...annotations].sort(cmp)\<close> is a stable sort of a copy. With a comparator that is a
  total preorder the result is determined: the stable sorted rearrangement, computed here
  by inserting each element, from the last to the first, before the first element it does
  not exceed.
\<close>

fun insertSorted :: "Annotation \<Rightarrow> Annotation list \<Rightarrow> Annotation list" where
  "insertSorted a [] = [a]"
| "insertSorted a (b # bs) =
     (if compareAnnotations a b \<le> 0 then a # b # bs else b # insertSorted a bs)"

definition sortedAnnotations :: "Annotation list \<Rightarrow> Annotation list" where
  "sortedAnnotations anns = foldr insertSorted anns []"

definition passesFilter :: "DisplayFilter \<Rightarrow> Annotation \<Rightarrow> bool" where
  "passesFilter flt a =
     (case flt of
        FilterAll \<Rightarrow> True
      | FilterGeneral \<Rightarrow> annotationType a = General
      | FilterActionable \<Rightarrow> annotationType a = Actionable)"

definition filteredAnnotations :: "Annotation list \<Rightarrow> DisplayFilter \<Rightarrow> Annotation list" where
  "filteredAnnotations sortedAnns flt =
     (if flt = FilterAll then sortedAnns
      else filter (passesFilter flt) sortedAnns)"

text \<open>Decimal rendering of a counter, as a template literal prints a small integer.\<close>

definition digitChar :: "nat \<Rightarrow> char" where
  "digitChar d = ''0123456789'' ! (d mod 10)"

fun decimal :: "nat \<Rightarrow> string" where
  "decimal n = (if n < 10 then [digitChar n] else decimal (n div 10) @ [digitChar (n mod 10)])"

declare decimal.simps [simp del]

text \<open>
  The \<open>forEach\<close> of \<open>displayNumbers\<close>: one walk over the sorted list with the two
  counters and the map built so far.
\<close>

fun numberWalk ::
  "Annotation list \<Rightarrow> nat \<Rightarrow> nat \<Rightarrow> (int \<rightharpoonup> string) \<Rightarrow> (int \<rightharpoonup> string)" where
  "numberWalk [] generalCount actionableCount numberMap = numberMap"
| "numberWalk (anno # rest) generalCount actionableCount numberMap =
     (if annotationType anno = General
      then numberWalk rest (generalCount + 1) actionableCount
             (numberMap(annId anno \<mapsto> decimal generalCount))
      else numberWalk rest generalCount (actionableCount + 1)
             (numberMap(annId anno \<mapsto> CHR ''A'' # decimal actionableCount)))"

definition displayNumbers :: "Annotation list \<Rightarrow> (int \<rightharpoonup> string)" where
  "displayNumbers sortedAnns = numberWalk sortedAnns 1 1 Map.empty"





text \<open>
  What a view prints for an annotation (the canvas draws \<open>displayNumbers[id] || '?'\<close>),
  and the rows the canvas and the sidebar receive: the filtered list, each annotation
  with the text printed for it.
\<close>

definition shownLabel :: "(int \<rightharpoonup> string) \<Rightarrow> Annotation \<Rightarrow> string" where
  "shownLabel numberMap a =
     (case numberMap (annId a) of
        None \<Rightarrow> ''?''
      | Some idText \<Rightarrow> if idText = [] then ''?'' else idText)"

definition viewRows :: "Annotation list \<Rightarrow> DisplayFilter \<Rightarrow> (Annotation \<times> string) list" where
  "viewRows anns flt =
     map (\<lambda>a. (a, shownLabel (displayNumbers (sortedAnnotations anns)) a))
       (filteredAnnotations (sortedAnnotations anns) flt)"

section \<open>Built-in functions the code calls\<close>

text \<open>
  A string is the list of the bytes of its UTF-8 encoding. \<open>String.prototype.toLowerCase\<close>
  follows the Unicode case mappings, which also send letters outside ASCII to ASCII
  letters (the Kelvin sign becomes \<open>k\<close>); it is not part of the program, and every
  function below that calls it takes it as its first argument \<open>toLowerCase\<close>.

  The distance of two points is computed in double precision by \<open>-\<close>, \<open>+\<close>,
  \<open>Math.pow\<close> and \<open>Math.sqrt\<close>, each of which rounds, and \<open>Math.pow\<close> and
  \<open>Math.sqrt\<close> are approximated by the implementation. These four operations are taken
  as a record \<open>ar\<close>; the expression over them is the code's.
\<close>

record Arith =
  numSub :: "real \<Rightarrow> real \<Rightarrow> real"
  numAdd :: "real \<Rightarrow> real \<Rightarrow> real"
  mathPow :: "real \<Rightarrow> real \<Rightarrow> real"
  mathSqrt :: "real \<Rightarrow> real"

text \<open>
  \<open>Math.sqrt(Math.pow(p.x - q.x, 2) + Math.pow(p.y - q.y, 2))\<close>, the value of
  \<open>distance\<close> in \<open>getAnnotationAtPos\<close> and of \<open>dist\<close> in \<open>handleMouseUp\<close>.
\<close>

definition distance :: "Arith \<Rightarrow> Point \<Rightarrow> Point \<Rightarrow> real" where
  "distance ar p q =
     mathSqrt ar
       (numAdd ar (mathPow ar (numSub ar (px p) (px q)) 2)
                  (mathPow ar (numSub ar (py p) (py q)) 2))"

text \<open>
  What IEEE 754 and ECMAScript fix exactly and the examples below need: a finite number
  minus itself is 0, \<open>Math.pow(0, 2)\<close> is 0, \<open>0 + 0\<close> is 0 and \<open>Math.sqrt(0)\<close> is 0.
\<close>

definition exactAtZero :: "Arith \<Rightarrow> bool" where
  "exactAtZero ar \<longleftrightarrow>
     (\<forall>v. numSub ar v v = 0) \<and> mathPow ar 0 2 = 0 \<and> numAdd ar 0 0 = 0 \<and> mathSqrt ar 0 = 0"

text \<open>
  Two instances, to evaluate examples with. Arithmetic without rounding: double
  arithmetic agrees with it wherever the exact result is a double, as at the distance 0.
  Lower case of the letters A to Z: the built-in function agrees with it on every
  string of ASCII characters.
\<close>

definition realArith :: Arith where
  "realArith =
     \<lparr>numSub = (\<lambda>a b. a - b), numAdd = (\<lambda>a b. a + b),
      mathPow = (\<lambda>a b. a ^ nat \<lfloor>b\<rfloor>), mathSqrt = sqrt\<rparr>"

definition asciiLowerChar :: "char \<Rightarrow> char" where
  "asciiLowerChar c =
     (case map_of (zip ''ABCDEFGHIJKLMNOPQRSTUVWXYZ'' ''abcdefghijklmnopqrstuvwxyz'') c of
        Some l \<Rightarrow> l
      | None \<Rightarrow> c)"

definition asciiLowerCase :: "string \<Rightarrow> string" where
  "asciiLowerCase t = map asciiLowerChar t"

section \<open>Detection normalizer (services/geminiService.ts, detectAndDescribeUI)\<close>

text \<open>
  A raw box as parsed from the response. The corners and the element type may be absent
  from the payload (the code tests \<open>!topLeft\<close>, \<open>!bottomRight\<close> and
  \<open>obj.elementType || 'other'\<close>), so they are options.
\<close>

record DetectedObject =
  topLeft :: "Point option"
  bottomRight :: "Point option"
  rawDescription :: string
  rawElementType :: "string option"

definition ACTIONABLE_TYPES :: "string list" where
  "ACTIONABLE_TYPES = [''button'', ''link'', ''tab'']"

text \<open>\<open>obj.elementType || 'other'\<close>: an absent or empty string is falsy.\<close>

definition elementTypeOrOther :: "string option \<Rightarrow> string" where
  "elementTypeOrOther e =
     (case e of None \<Rightarrow> ''other'' | Some t \<Rightarrow> if t = [] then ''other'' else t)"

text \<open>The test of the \<open>if\<close> that returns \<open>null\<close>, on two corners that exist.\<close>

definition invalidBox :: "nat \<Rightarrow> nat \<Rightarrow> Point \<Rightarrow> Point \<Rightarrow> bool" where
  "invalidBox naturalWidth naturalHeight topL botR \<longleftrightarrow>
     px topL \<ge> px botR \<or> py topL \<ge> py botR \<or>
     px botR \<le> 0 \<or> px topL \<ge> real naturalWidth \<or>
     py botR \<le> 0 \<or> py topL \<ge> real naturalHeight"

text \<open>
  The clamped corners: \<open>(x1, y1) = (Math.max(0, topLeft.x), Math.max(0, topLeft.y))\<close> and
  \<open>(x2, y2) = (Math.min(width, bottomRight.x), Math.min(height, bottomRight.y))\<close>.
\<close>

definition clampedTopLeft :: "Point \<Rightarrow> Point" where
  "clampedTopLeft topL = \<lparr>px = max 0 (px topL), py = max 0 (py topL)\<rparr>"

definition clampedBottomRight :: "nat \<Rightarrow> nat \<Rightarrow> Point \<Rightarrow> Point" where
  "clampedBottomRight naturalWidth naturalHeight botR =
     \<lparr>px = min (real naturalWidth) (px botR), py = min (real naturalHeight) (py botR)\<rparr>"

text \<open>
  The function passed to \<open>detectedObjects.map\<close>; \<open>None\<close> is its \<open>null\<close>. The argument
  \<open>dateNow\<close> is what \<open>Date.now()\<close> returns when the record is built.
\<close>

definition mapDetected ::
  "(string \<Rightarrow> string) \<Rightarrow> nat \<Rightarrow> nat \<Rightarrow> int \<Rightarrow> nat \<Rightarrow> DetectedObject \<Rightarrow> Annotation option" where
  "mapDetected toLowerCase naturalWidth naturalHeight dateNow index obj =
     (case topLeft obj of
        None \<Rightarrow> None
      | Some topL \<Rightarrow>
         (case bottomRight obj of
            None \<Rightarrow> None
          | Some botR \<Rightarrow>
             if invalidBox naturalWidth naturalHeight topL botR then None
             else
               let x2 = px (clampedBottomRight naturalWidth naturalHeight botR);
                   y1 = py (clampedTopLeft topL);
                   centerX = max 0 (min x2 (real naturalWidth));
                   centerY = max 0 (min y1 (real naturalHeight));
                   et = elementTypeOrOther (rawElementType obj)
               in Some \<lparr>annId = dateNow + int index,
                         point = \<lparr>px = centerX, py = centerY\<rparr>,
                         description = rawDescription obj,
                         elementType = et,
                         annotationType =
                           (if toLowerCase et \<in> set ACTIONABLE_TYPES then Actionable
                            else General)\<rparr>))"

text \<open>
  \<open>map\<close> with the index, then the \<open>filter\<close> that drops the \<open>null\<close>s. The clock is read
  once for every box that is kept: \<open>clock index\<close> is the reading for the box at \<open>index\<close>.
\<close>

definition detectAndDescribeUI ::
  "(string \<Rightarrow> string) \<Rightarrow> nat \<Rightarrow> nat \<Rightarrow> (nat \<Rightarrow> int) \<Rightarrow> DetectedObject list \<Rightarrow>
   Annotation list" where
  "detectAndDescribeUI toLowerCase naturalWidth naturalHeight clock detectedObjects =
     List.map_filter
       (\<lambda>(index, obj).
          mapDetected toLowerCase naturalWidth naturalHeight (clock index) index obj)
       (enumerate 0 detectedObjects)"

text \<open>
  The rejection rule in the words of the specification, to compare the code with: a corner
  is missing, the width or the height is not positive, or the box lies wholly outside
  the image.
\<close>

definition rejectCriterion :: "nat \<Rightarrow> nat \<Rightarrow> DetectedObject \<Rightarrow> bool" where
  "rejectCriterion width height obj \<longleftrightarrow>
     topLeft obj = None \<or> bottomRight obj = None \<or>
     px (the (topLeft obj)) \<ge> px (the (bottomRight obj)) \<or>
     py (the (topLeft obj)) \<ge> py (the (bottomRight obj)) \<or>
     px (the (bottomRight obj)) \<le> 0 \<or> px (the (topLeft obj)) \<ge> real width \<or>
     py (the (bottomRight obj)) \<le> 0 \<or> py (the (topLeft obj)) \<ge> real height"

section \<open>Annotation store (App.tsx)\<close>

record AppState =
  annotations :: "Annotation list"
  displayFilter :: DisplayFilter
  manualAnnotationType :: AnnotationType
  selectedAnnotationId :: "int option"
  annotationToDelete :: "int option"

text \<open>A \<open>Partial<Annotation>\<close>: each field present or not.\<close>

record AnnotationUpdates =
  updId :: "int option"
  updPoint :: "Point option"
  updDescription :: "string option"
  updElementType :: "string option"
  updAnnotationType :: "AnnotationType option"

text \<open>\<open>{ ...anno, ...updates }\<close>\<close>

definition applyUpdates :: "Annotation \<Rightarrow> AnnotationUpdates \<Rightarrow> Annotation" where
  "applyUpdates anno updates =
     \<lparr>annId = (case updId updates of None \<Rightarrow> annId anno | Some v \<Rightarrow> v),
      point = (case updPoint updates of None \<Rightarrow> point anno | Some v \<Rightarrow> v),
      description = (case updDescription updates of None \<Rightarrow> description anno | Some v \<Rightarrow> v),
      elementType = (case updElementType updates of None \<Rightarrow> elementType anno | Some v \<Rightarrow> v),
      annotationType =
        (case updAnnotationType updates of None \<Rightarrow> annotationType anno | Some v \<Rightarrow> v)\<rparr>"

text \<open>\<open>{ point: p }\<close>, the only update the canvas sends.\<close>

definition pointUpdate :: "Point \<Rightarrow> AnnotationUpdates" where
  "pointUpdate p =
     \<lparr>updId = None, updPoint = Some p, updDescription = None, updElementType = None,
      updAnnotationType = None\<rparr>"

definition addAnnotation :: "int \<Rightarrow> Point \<Rightarrow> AppState \<Rightarrow> AppState" where
  "addAnnotation dateNow p a =
     (let newAnnotation =
            \<lparr>annId = dateNow, point = p, description = '''', elementType = ''manual'',
             annotationType = manualAnnotationType a\<rparr>
      in a\<lparr>annotations := annotations a @ [newAnnotation],
            selectedAnnotationId := Some (annId newAnnotation)\<rparr>)"

definition deleteAnnotation :: "int \<Rightarrow> AppState \<Rightarrow> AppState" where
  "deleteAnnotation i a =
     a\<lparr>annotations := filter (\<lambda>anno. annId anno \<noteq> i) (annotations a),
       selectedAnnotationId :=
         (if selectedAnnotationId a = Some i then None else selectedAnnotationId a)\<rparr>"

definition updateAnnotation :: "int \<Rightarrow> AnnotationUpdates \<Rightarrow> AppState \<Rightarrow> AppState" where
  "updateAnnotation i updates a =
     a\<lparr>annotations :=
         map (\<lambda>anno. if annId anno = i then applyUpdates anno updates else anno)
           (annotations a)\<rparr>"

definition handleRequestDelete :: "int \<Rightarrow> AppState \<Rightarrow> AppState" where
  "handleRequestDelete i a = a\<lparr>annotationToDelete := Some i\<rparr>"

definition handleConfirmDelete :: "AppState \<Rightarrow> AppState" where
  "handleConfirmDelete a =
     (case annotationToDelete a of
        None \<Rightarrow> a
      | Some i \<Rightarrow> (deleteAnnotation i a)\<lparr>annotationToDelete := None\<rparr>)"

text \<open>The state setter the filter buttons of the sidebar call.\<close>

definition setDisplayFilter :: "DisplayFilter \<Rightarrow> AppState \<Rightarrow> AppState" where
  "setDisplayFilter flt a = a\<lparr>displayFilter := flt\<rparr>"

text \<open>
  The two steps of an upload (\<open>handleImageUpload\<close>): when the image has loaded the
  store is emptied and the selection cleared, and when the detection has returned
  \<open>setAnnotations(detectedAnnotations)\<close> installs the batch.
\<close>

definition imageLoaded :: "AppState \<Rightarrow> AppState" where
  "imageLoaded a = a\<lparr>annotations := [], selectedAnnotationId := None\<rparr>"

definition detectionDone :: "Annotation list \<Rightarrow> AppState \<Rightarrow> AppState" where
  "detectionDone detectedAnnotations a = a\<lparr>annotations := detectedAnnotations\<rparr>"

section \<open>Interaction controller (components/AnnotationCanvas.tsx)\<close>

text \<open>
  The state of the canvas component, and the whole session: the handlers of the canvas
  change the application state through their callbacks. React renders again after every
  event, so a handler reads the state all earlier handlers have left.
\<close>

record CanvasState =
  draggingAnnotationId :: "int option"
  dragStartPos :: "Point option"

record Session =
  app :: AppState
  canvas :: CanvasState

text \<open>
  A mouse event: its button, and \<open>pos\<close>, the position \<open>getCanvasCoordinates\<close> computes
  for it, in image pixels.
\<close>

record MouseEvent =
  button :: int
  pos :: Point

text \<open>
  \<open>Math.round\<close>: the integer nearest to its argument, a half rounded up. ECMAScript
  fixes this value exactly, so it is no parameter.
\<close>

definition mathRound :: "real \<Rightarrow> real" where
  "mathRound v = of_int \<lfloor>v + 1 / 2\<rfloor>"

definition roundPoint :: "Point \<Rightarrow> Point" where
  "roundPoint p = \<lparr>px = mathRound (px p), py = mathRound (py p)\<rparr>"

text \<open>
  The loop of \<open>getAnnotationAtPos\<close>, from the last index down to 0: \<open>scanDown ar anns p n\<close>
  tests the indices below \<open>n\<close>.
\<close>

fun scanDown :: "Arith \<Rightarrow> Annotation list \<Rightarrow> Point \<Rightarrow> nat \<Rightarrow> Annotation option" where
  "scanDown ar anns p 0 = None"
| "scanDown ar anns p (Suc i) =
     (if distance ar p (point (anns ! i)) \<le> 14 then Some (anns ! i)
      else scanDown ar anns p i)"

definition getAnnotationAtPos :: "Arith \<Rightarrow> Annotation list \<Rightarrow> Point \<Rightarrow> Annotation option" where
  "getAnnotationAtPos ar anns p = scanDown ar anns p (length anns)"

text \<open>The \<open>annotations\<close> property the application passes to the canvas.\<close>

definition canvasAnnotations :: "Session \<Rightarrow> Annotation list" where
  "canvasAnnotations s =
     filteredAnnotations (sortedAnnotations (annotations (app s))) (displayFilter (app s))"

definition handleMouseDown :: "Arith \<Rightarrow> MouseEvent \<Rightarrow> Session \<Rightarrow> Session" where
  "handleMouseDown ar e s =
     (if button e \<noteq> 0 then s
      else
        let c = (canvas s)\<lparr>dragStartPos := Some (pos e)\<rparr> in
        case getAnnotationAtPos ar (canvasAnnotations s) (pos e) of
          Some clickedAnnotation \<Rightarrow>
            s\<lparr>canvas := c\<lparr>draggingAnnotationId := Some (annId clickedAnnotation)\<rparr>\<rparr>
        | None \<Rightarrow> s\<lparr>canvas := c\<rparr>)"

text \<open>
  The move handler computes a distance only to choose the cursor, which is not
  modelled, so it takes no arithmetic.
\<close>

definition handleMouseMove :: "MouseEvent \<Rightarrow> Session \<Rightarrow> Session" where
  "handleMouseMove e s =
     (case draggingAnnotationId (canvas s) of
        Some i \<Rightarrow> s\<lparr>app := updateAnnotation i (pointUpdate (roundPoint (pos e))) (app s)\<rparr>
      | None \<Rightarrow> s)"

text \<open>
  \<open>wasDragging\<close> is \<open>draggingAnnotationId !== null\<close>, read from the state the press has
  left: it is true as soon as the press has hit a marker, whether or not a move followed.
  \<open>dateNow\<close> is the reading of \<open>Date.now()\<close> that \<open>addAnnotation\<close> takes as the id.
\<close>

definition handleMouseUp :: "Arith \<Rightarrow> int \<Rightarrow> MouseEvent \<Rightarrow> Session \<Rightarrow> Session" where
  "handleMouseUp ar dateNow e s =
     (if button e \<noteq> 0 then s
      else
        let wasDragging = (draggingAnnotationId (canvas s) \<noteq> None);
            a = (case dragStartPos (canvas s) of
                   None \<Rightarrow> app s
                 | Some start \<Rightarrow>
                     if distance ar (pos e) start < 5 \<and> \<not> wasDragging then
                       (case getAnnotationAtPos ar (canvasAnnotations s) (pos e) of
                          Some clickedAnnotation \<Rightarrow>
                            (app s)\<lparr>selectedAnnotationId :=
                              (if selectedAnnotationId (app s) = Some (annId clickedAnnotation)
                               then None else Some (annId clickedAnnotation))\<rparr>
                        | None \<Rightarrow> addAnnotation dateNow (roundPoint (pos e)) (app s))
                     else app s)
        in \<lparr>app = a, canvas = \<lparr>draggingAnnotationId = None, dragStartPos = None\<rparr>\<rparr>)"

definition handleMouseLeave :: "Session \<Rightarrow> Session" where
  "handleMouseLeave s = s\<lparr>canvas := \<lparr>draggingAnnotationId = None, dragStartPos = None\<rparr>\<rparr>"

definition handleContextMenu :: "Arith \<Rightarrow> MouseEvent \<Rightarrow> Session \<Rightarrow> Session" where
  "handleContextMenu ar e s =
     (case getAnnotationAtPos ar (canvasAnnotations s) (pos e) of
        Some hit \<Rightarrow> s\<lparr>app := handleRequestDelete (annId hit) (app s)\<rparr>
      | None \<Rightarrow> s)"

text \<open>The events the canvas element listens to, and the handler each one runs.\<close>

datatype PointerEvent =
  OnMouseDown MouseEvent
| OnMouseMove MouseEvent
| OnMouseUp MouseEvent
| OnMouseLeave
| OnContextMenu MouseEvent

fun dispatch :: "Arith \<Rightarrow> int \<Rightarrow> PointerEvent \<Rightarrow> Session \<Rightarrow> Session" where
  "dispatch ar dateNow (OnMouseDown e) s = handleMouseDown ar e s"
| "dispatch ar dateNow (OnMouseMove e) s = handleMouseMove e s"
| "dispatch ar dateNow (OnMouseUp e) s = handleMouseUp ar dateNow e s"
| "dispatch ar dateNow OnMouseLeave s = handleMouseLeave s"
| "dispatch ar dateNow (OnContextMenu e) s = handleContextMenu ar e s"

section \<open>Initial state and the session with a repeated id\<close>

text \<open>The initial values of the \<open>useState\<close> and \<open>useRef\<close> hooks.\<close>

definition initialApp :: AppState where
  "initialApp =
     \<lparr>annotations = [], displayFilter = FilterAll, manualAnnotationType = General,
      selectedAnnotationId = None, annotationToDelete = None\<rparr>"

definition initialCanvas :: CanvasState where
  "initialCanvas = \<lparr>draggingAnnotationId = None, dragStartPos = None\<rparr>"

text \<open>
  An upload whose detection returns two tabs, both built at the clock reading 1000,
  followed by one annotation added by hand at \<open>(300,400)\<close> at the reading 1001.
\<close>

definition twoTabs :: "DetectedObject list" where
  "twoTabs =
     [\<lparr>topLeft = Some \<lparr>px = 10, py = 10\<rparr>, bottomRight = Some \<lparr>px = 90, py = 40\<rparr>,
       rawDescription = ''file'', rawElementType = Some ''tab''\<rparr>,
      \<lparr>topLeft = Some \<lparr>px = 100, py = 10\<rparr>, bottomRight = Some \<lparr>px = 190, py = 40\<rparr>,
       rawDescription = ''edit'', rawElementType = Some ''tab''\<rparr>]"

definition repeatedIdApp :: "(string \<Rightarrow> string) \<Rightarrow> AppState" where
  "repeatedIdApp toLowerCase =
     addAnnotation 1001 \<lparr>px = 300, py = 400\<rparr>
       (detectionDone (detectAndDescribeUI toLowerCase 800 600 (\<lambda>index. 1000) twoTabs)
          (imageLoaded initialApp))"

section \<open>Properties of the ordering\<close>




lemma set_insertSorted: "set (insertSorted a xs) = insert a (set xs)"
  by (induction xs) auto




lemma set_sortedAnnotations: "set (sortedAnnotations xs) = set xs"
  by (induction xs) (simp_all add: sortedAnnotations_def set_insertSorted)


section \<open>Properties of the numbering\<close>




lemma digitChar_inj: "a < 10 \<Longrightarrow> b < 10 \<Longrightarrow> digitChar a = digitChar b \<Longrightarrow> a = b"
proof -
  assume a: "a < 10" and b: "b < 10" and e: "digitChar a = digitChar b"
  have d: "distinct ''0123456789''" by simp
  have l: "length ''0123456789'' = 10" by simp
  from e a b have "''0123456789'' ! a = ''0123456789'' ! b" by (simp add: digitChar_def)
  with d l a b show "a = b" by (metis nth_eq_iff_index_eq)
qed

lemma digitChar_not_A: "digitChar d \<noteq> CHR ''A''"
proof -
  have l: "length ''0123456789'' = 10" by simp
  have "d mod 10 < length ''0123456789''" unfolding l by simp
  then have "''0123456789'' ! (d mod 10) \<in> set ''0123456789''"
    by (rule nth_mem)
  then show ?thesis unfolding digitChar_def by auto
qed

lemma decimal_nonempty: "decimal n \<noteq> []"
  by (subst decimal.simps) simp

lemma decimal_nonempty': "[] \<noteq> decimal n"
  using decimal_nonempty [of n] by simp

lemma decimal_hd_not_A: "hd (decimal n) \<noteq> CHR ''A''"
proof (induction n rule: decimal.induct)
  case (1 n)
  show ?case
  proof (cases "n < 10")
    case True
    then show ?thesis by (subst decimal.simps) (simp add: digitChar_not_A)
  next
    case False
    with 1 have "hd (decimal (n div 10)) \<noteq> CHR ''A''" by simp
    with False show ?thesis
      by (subst decimal.simps) (simp add: decimal_nonempty)
  qed
qed

lemma decimal_not_A: "decimal n \<noteq> CHR ''A'' # t"
  using decimal_hd_not_A [of n] by (cases "decimal n") auto

lemma decimal_inj: "decimal n = decimal m \<Longrightarrow> n = m"
proof (induction n arbitrary: m rule: decimal.induct)
  case (1 n)
  show ?case
  proof (cases "n < 10")
    case n: True
    show ?thesis
    proof (cases "m < 10")
      case True
      with n 1(2) show ?thesis
        by (simp add: decimal.simps [of n] decimal.simps [of m] digitChar_inj)
    next
      case False
      with n 1(2) show ?thesis
        by (simp add: decimal.simps [of n] decimal.simps [of m] decimal_nonempty decimal_nonempty')
    qed
  next
    case n: False
    show ?thesis
    proof (cases "m < 10")
      case True
      with n 1(2) show ?thesis
        by (simp add: decimal.simps [of n] decimal.simps [of m] decimal_nonempty decimal_nonempty')
    next
      case False
      with n 1(2) have e: "decimal (n div 10) = decimal (m div 10)"
        and d: "digitChar (n mod 10) = digitChar (m mod 10)"
        by (simp_all add: decimal.simps [of n] decimal.simps [of m])
      from 1(1) [OF n e] have q: "n div 10 = m div 10" .
      from d have r: "n mod 10 = m mod 10" by (simp add: digitChar_inj)
      from q r show ?thesis by (metis div_mult_mod_eq)
    qed
  qed
qed


lemma dom_numberWalk: "dom (numberWalk xs g a m) = dom m \<union> annId ` set xs"
  by (induction xs arbitrary: g a m) auto

lemma inj_upd:
  assumes inj: "\<forall>i j v. m i = Some v \<and> m j = Some v \<longrightarrow> i = j"
    and fresh: "\<forall>i. m i \<noteq> Some w"
  shows "\<forall>i j v. (m(k \<mapsto> w)) i = Some v \<and> (m(k \<mapsto> w)) j = Some v \<longrightarrow> i = j"
proof (intro allI impI)
  fix i j v
  assume h: "(m(k \<mapsto> w)) i = Some v \<and> (m(k \<mapsto> w)) j = Some v"
  show "i = j"
  proof (cases "i = k")
    case ik: True
    with h have v: "v = w" by simp
    show ?thesis
    proof (cases "j = k")
      case True
      with ik show ?thesis by simp
    next
      case False
      with h v have "m j = Some w" by simp
      with fresh show ?thesis by simp
    qed
  next
    case ik: False
    with h have mi: "m i = Some v" by simp
    show ?thesis
    proof (cases "j = k")
      case True
      with h have "v = w" by simp
      with mi fresh show ?thesis by simp
    next
      case False
      with h have "m j = Some v" by simp
      with mi inj show ?thesis by blast
    qed
  qed
qed

lemma numberWalk_inj:
  assumes "\<forall>i j v. m i = Some v \<and> m j = Some v \<longrightarrow> i = j"
    and "\<forall>i v. m i = Some v \<longrightarrow>
           (\<exists>k<g. v = decimal k) \<or> (\<exists>k<a. v = CHR ''A'' # decimal k)"
  shows "\<forall>i j v. numberWalk xs g a m i = Some v \<and> numberWalk xs g a m j = Some v \<longrightarrow> i = j"
  using assms
proof (induction xs arbitrary: g a m)
  case Nil
  then show ?case by simp
next
  case (Cons x xs)
  show ?case
  proof (cases "annotationType x = General")
    case True
    let ?m = "m(annId x \<mapsto> decimal g)"
    have fresh: "\<forall>i. m i \<noteq> Some (decimal g)"
    proof
      fix i show "m i \<noteq> Some (decimal g)"
      proof
        assume "m i = Some (decimal g)"
        with Cons.prems(2) have "(\<exists>k<g. decimal g = decimal k) \<or> (\<exists>k<a. decimal g = CHR ''A'' # decimal k)"
          by blast
        then show False
        proof
          assume "\<exists>k<g. decimal g = decimal k"
          then obtain k where "k < g" "decimal g = decimal k" by blast
          then show False using decimal_inj [of g k] by simp
        next
          assume "\<exists>k<a. decimal g = CHR ''A'' # decimal k"
          then show False using decimal_not_A by blast
        qed
      qed
    qed
    have inj: "\<forall>i j v. ?m i = Some v \<and> ?m j = Some v \<longrightarrow> i = j"
      using Cons.prems(1) fresh by (rule inj_upd)
    have ran: "\<forall>i v. ?m i = Some v \<longrightarrow>
           (\<exists>k<g + 1. v = decimal k) \<or> (\<exists>k<a. v = CHR ''A'' # decimal k)"
    proof (intro allI impI)
      fix i v assume h: "?m i = Some v"
      show "(\<exists>k<g + 1. v = decimal k) \<or> (\<exists>k<a. v = CHR ''A'' # decimal k)"
      proof (cases "i = annId x")
        case True
        with h have "v = decimal g" by simp
        then have "\<exists>k<g + 1. v = decimal k" by (intro exI [of _ g]) simp
        then show ?thesis ..
      next
        case False
        with h have "m i = Some v" by simp
        with Cons.prems(2) have "(\<exists>k<g. v = decimal k) \<or> (\<exists>k<a. v = CHR ''A'' # decimal k)"
          by blast
        then show ?thesis
        proof
          assume "\<exists>k<g. v = decimal k"
          then obtain k where "k < g" "v = decimal k" by blast
          then have "\<exists>k<g + 1. v = decimal k" by (intro exI [of _ k]) simp
          then show ?thesis ..
        next
          assume "\<exists>k<a. v = CHR ''A'' # decimal k"
          then show ?thesis ..
        qed
      qed
    qed
    have eq: "numberWalk (x # xs) g a m = numberWalk xs (g + 1) a ?m"
      using True by simp
    show ?thesis unfolding eq by (rule Cons.IH [OF inj ran])
  next
    case False
    let ?m = "m(annId x \<mapsto> CHR ''A'' # decimal a)"
    have fresh: "\<forall>i. m i \<noteq> Some (CHR ''A'' # decimal a)"
    proof
      fix i show "m i \<noteq> Some (CHR ''A'' # decimal a)"
      proof
        assume "m i = Some (CHR ''A'' # decimal a)"
        with Cons.prems(2) have "(\<exists>k<g. CHR ''A'' # decimal a = decimal k) \<or>
            (\<exists>k<a. CHR ''A'' # decimal a = CHR ''A'' # decimal k)"
          by blast
        then show False
        proof
          assume "\<exists>k<g. CHR ''A'' # decimal a = decimal k"
          then obtain k where "decimal k = CHR ''A'' # decimal a" by auto
          then show False using decimal_not_A by blast
        next
          assume "\<exists>k<a. CHR ''A'' # decimal a = CHR ''A'' # decimal k"
          then obtain k where "k < a" "decimal a = decimal k" by auto
          then show False using decimal_inj [of a k] by simp
        qed
      qed
    qed
    have inj: "\<forall>i j v. ?m i = Some v \<and> ?m j = Some v \<longrightarrow> i = j"
      using Cons.prems(1) fresh by (rule inj_upd)
    have ran: "\<forall>i v. ?m i = Some v \<longrightarrow>
           (\<exists>k<g. v = decimal k) \<or> (\<exists>k<a + 1. v = CHR ''A'' # decimal k)"
    proof (intro allI impI)
      fix i v assume h: "?m i = Some v"
      show "(\<exists>k<g. v = decimal k) \<or> (\<exists>k<a + 1. v = CHR ''A'' # decimal k)"
      proof (cases "i = annId x")
        case True
        with h have "v = CHR ''A'' # decimal a" by simp
        then have "\<exists>k<a + 1. v = CHR ''A'' # decimal k" by (intro exI [of _ a]) simp
        then show ?thesis ..
      next
        case False
        with h have "m i = Some v" by simp
        with Cons.prems(2) have "(\<exists>k<g. v = decimal k) \<or> (\<exists>k<a. v = CHR ''A'' # decimal k)"
          by blast
        then show ?thesis
        proof
          assume "\<exists>k<g. v = decimal k"
          then show ?thesis ..
        next
          assume "\<exists>k<a. v = CHR ''A'' # decimal k"
          then obtain k where "k < a" "v = CHR ''A'' # decimal k" by blast
          then have "\<exists>k<a + 1. v = CHR ''A'' # decimal k" by (intro exI [of _ k]) simp
          then show ?thesis ..
        qed
      qed
    qed
    have eq: "numberWalk (x # xs) g a m = numberWalk xs g (a + 1) ?m"
      using False by simp
    show ?thesis unfolding eq by (rule Cons.IH [OF inj ran])
  qed
qed

lemma displayNumbers_inj:
  "displayNumbers xs i = Some v \<Longrightarrow> displayNumbers xs j = Some v \<Longrightarrow> i = j"
proof -
  have "\<forall>i j v. numberWalk xs 1 1 Map.empty i = Some v \<and> numberWalk xs 1 1 Map.empty j = Some v \<longrightarrow> i = j"
    by (rule numberWalk_inj) simp_all
  then show "displayNumbers xs i = Some v \<Longrightarrow> displayNumbers xs j = Some v \<Longrightarrow> i = j"
    unfolding displayNumbers_def by blast
qed

lemma dom_displayNumbers: "dom (displayNumbers xs) = annId ` set xs"
  by (simp add: displayNumbers_def dom_numberWalk)

lemma numberWalk_nonempty:
  "\<forall>i v. m i = Some v \<longrightarrow> v \<noteq> [] \<Longrightarrow> numberWalk xs g a m i = Some v \<Longrightarrow> v \<noteq> []"
proof (induction xs arbitrary: g a m)
  case Nil
  then show ?case by simp
next
  case (Cons x xs)
  show ?case
  proof (cases "annotationType x = General")
    case True
    have "\<forall>i v. (m(annId x \<mapsto> decimal g)) i = Some v \<longrightarrow> v \<noteq> []"
      using Cons.prems(1) by (auto simp: decimal_nonempty)
    moreover have "numberWalk xs (g + 1) a (m(annId x \<mapsto> decimal g)) i = Some v"
      using Cons.prems(2) True by simp
    ultimately show ?thesis by (rule Cons.IH)
  next
    case False
    have "\<forall>i v. (m(annId x \<mapsto> CHR ''A'' # decimal a)) i = Some v \<longrightarrow> v \<noteq> []"
      using Cons.prems(1) by auto
    moreover have "numberWalk xs g (a + 1) (m(annId x \<mapsto> CHR ''A'' # decimal a)) i = Some v"
      using Cons.prems(2) False by simp
    ultimately show ?thesis by (rule Cons.IH)
  qed
qed

lemma displayNumbers_nonempty: "displayNumbers xs i = Some v \<Longrightarrow> v \<noteq> []"
  unfolding displayNumbers_def by (rule numberWalk_nonempty [of Map.empty]) simp_all

lemma displayNumbers_bij:
  "bij_betw (\<lambda>i. the (displayNumbers xs i)) (dom (displayNumbers xs)) (ran (displayNumbers xs))"
  unfolding bij_betw_def
proof
  show "inj_on (\<lambda>i. the (displayNumbers xs i)) (dom (displayNumbers xs))"
    by (rule inj_onI) (auto dest: displayNumbers_inj)
  show "(\<lambda>i. the (displayNumbers xs i)) ` dom (displayNumbers xs) = ran (displayNumbers xs)"
    by (force simp: ran_def dom_def image_iff)
qed

lemma decimal_digit: "n < 10 \<Longrightarrow> decimal n = [digitChar n]"
  by (subst decimal.simps) simp



section \<open>The numbering under a filter\<close>

lemma filteredAnnotations_filter:
  "filteredAnnotations xs flt = filter (passesFilter flt) xs"
  by (cases flt) (simp_all add: filteredAnnotations_def passesFilter_def)

lemma shownLabel_displayNumbers:
  "a \<in> set xs \<Longrightarrow> displayNumbers xs (annId a) = Some (shownLabel (displayNumbers xs) a)"
proof -
  assume "a \<in> set xs"
  then have "annId a \<in> dom (displayNumbers xs)" by (simp add: dom_displayNumbers)
  then obtain v where v: "displayNumbers xs (annId a) = Some v" by blast
  then have "v \<noteq> []" by (rule displayNumbers_nonempty)
  with v show ?thesis by (simp add: shownLabel_def)
qed

text \<open>
  C2. The numbering map is computed from the full sorted list: its keys are the ids of
  all annotations, and it is a bijection between those ids and the labels it holds. The
  rows of a filtered view are the rows of the unfiltered view that pass the filter, in
  the same order and each with the same label, and the label of every row is the one the
  full numbering holds for the id of its annotation.
\<close>

theorem numbering_stable_under_filter:
  "dom (displayNumbers (sortedAnnotations anns)) = annId ` set anns \<and>
   bij_betw (\<lambda>i. the (displayNumbers (sortedAnnotations anns) i))
     (annId ` set anns) (ran (displayNumbers (sortedAnnotations anns))) \<and>
   viewRows anns flt = filter (\<lambda>row. passesFilter flt (fst row)) (viewRows anns FilterAll) \<and>
   (\<forall>row\<in>set (viewRows anns flt).
      fst row \<in> set anns \<and> passesFilter flt (fst row) \<and>
      displayNumbers (sortedAnnotations anns) (annId (fst row)) = Some (snd row))"
proof (intro conjI)
  show d: "dom (displayNumbers (sortedAnnotations anns)) = annId ` set anns"
    by (simp add: dom_displayNumbers set_sortedAnnotations)
  show "bij_betw (\<lambda>i. the (displayNumbers (sortedAnnotations anns) i))
     (annId ` set anns) (ran (displayNumbers (sortedAnnotations anns)))"
    using displayNumbers_bij [of "sortedAnnotations anns"] unfolding d .
  show "viewRows anns flt = filter (\<lambda>row. passesFilter flt (fst row)) (viewRows anns FilterAll)"
  proof -
    have "filteredAnnotations (sortedAnnotations anns) FilterAll = sortedAnnotations anns"
      by (simp add: filteredAnnotations_def)
    then show ?thesis
      by (simp add: viewRows_def filteredAnnotations_filter [of _ flt] filter_map comp_def)
  qed
  show "\<forall>row\<in>set (viewRows anns flt).
      fst row \<in> set anns \<and> passesFilter flt (fst row) \<and>
      displayNumbers (sortedAnnotations anns) (annId (fst row)) = Some (snd row)"
  proof
    fix row assume "row \<in> set (viewRows anns flt)"
    then obtain a where a: "a \<in> set (sortedAnnotations anns)" "passesFilter flt a"
      and row: "row = (a, shownLabel (displayNumbers (sortedAnnotations anns)) a)"
      by (auto simp: viewRows_def filteredAnnotations_filter)
    from a(1) have "displayNumbers (sortedAnnotations anns) (annId a) =
        Some (shownLabel (displayNumbers (sortedAnnotations anns)) a)"
      by (rule shownLabel_displayNumbers)
    with a row show "fst row \<in> set anns \<and> passesFilter flt (fst row) \<and>
      displayNumbers (sortedAnnotations anns) (annId (fst row)) = Some (snd row)"
      by (simp add: set_sortedAnnotations)
  qed
qed

theorem numbering_stable_under_filter_witness:
  "viewRows
     [\<lparr>annId = 1, point = \<lparr>px = 100, py = 50\<rparr>, description = '''', elementType = ''input'',
       annotationType = General\<rparr>,
      \<lparr>annId = 2, point = \<lparr>px = 10, py = 50\<rparr>, description = '''', elementType = ''button'',
       annotationType = Actionable\<rparr>,
      \<lparr>annId = 3, point = \<lparr>px = 500, py = 10\<rparr>, description = '''', elementType = ''text'',
       annotationType = General\<rparr>] FilterGeneral =
   [(\<lparr>annId = 3, point = \<lparr>px = 500, py = 10\<rparr>, description = '''', elementType = ''text'',
       annotationType = General\<rparr>, ''1''),
    (\<lparr>annId = 1, point = \<lparr>px = 100, py = 50\<rparr>, description = '''', elementType = ''input'',
       annotationType = General\<rparr>, ''2'')] \<and>
   displayNumbers
     (sortedAnnotations
        [\<lparr>annId = 1, point = \<lparr>px = 100, py = 50\<rparr>, description = '''', elementType = ''input'',
          annotationType = General\<rparr>,
         \<lparr>annId = 2, point = \<lparr>px = 10, py = 50\<rparr>, description = '''', elementType = ''button'',
          annotationType = Actionable\<rparr>,
         \<lparr>annId = 3, point = \<lparr>px = 500, py = 10\<rparr>, description = '''', elementType = ''text'',
          annotationType = General\<rparr>]) 1 = Some ''2''"
proof -
  let ?a = "\<lparr>annId = 1, point = \<lparr>px = 100, py = 50\<rparr>, description = '''', elementType = ''input'',
       annotationType = General\<rparr>"
  let ?b = "\<lparr>annId = 2, point = \<lparr>px = 10, py = 50\<rparr>, description = '''', elementType = ''button'',
       annotationType = Actionable\<rparr>"
  let ?c = "\<lparr>annId = 3, point = \<lparr>px = 500, py = 10\<rparr>, description = '''', elementType = ''text'',
       annotationType = General\<rparr>"
  have s: "sortedAnnotations [?a, ?b, ?c] = [?c, ?b, ?a]"
    by (simp add: sortedAnnotations_def compareAnnotations_def)
  have full: "viewRows [?a, ?b, ?c] FilterAll = [(?c, ''1''), (?b, ''A1''), (?a, ''2'')]"
    by (simp add: viewRows_def s filteredAnnotations_def shownLabel_def displayNumbers_def
        decimal_digit digitChar_def)
  from numbering_stable_under_filter [of "[?a, ?b, ?c]" FilterGeneral]
  have "viewRows [?a, ?b, ?c] FilterGeneral =
      filter (\<lambda>row. passesFilter FilterGeneral (fst row)) (viewRows [?a, ?b, ?c] FilterAll)"
    and rows: "\<forall>row\<in>set (viewRows [?a, ?b, ?c] FilterGeneral).
      fst row \<in> set [?a, ?b, ?c] \<and> passesFilter FilterGeneral (fst row) \<and>
      displayNumbers (sortedAnnotations [?a, ?b, ?c]) (annId (fst row)) = Some (snd row)"
    by blast+
  then have v: "viewRows [?a, ?b, ?c] FilterGeneral = [(?c, ''1''), (?a, ''2'')]"
    by (simp add: full passesFilter_def)
  have "(?a, ''2'') \<in> set (viewRows [?a, ?b, ?c] FilterGeneral)"
    unfolding v by simp
  with rows have "displayNumbers (sortedAnnotations [?a, ?b, ?c]) (annId (fst (?a, ''2''))) =
      Some (snd (?a, ''2''))"
    by blast
  then have "displayNumbers (sortedAnnotations [?a, ?b, ?c]) 1 = Some ''2''"
    by simp
  with v show ?thesis by simp
qed

section \<open>Properties of the detection normalizer\<close>

lemma mapDetected_None_iff:
  "mapDetected lc w h now i obj = None \<longleftrightarrow> rejectCriterion w h obj"
  by (auto simp: mapDetected_def rejectCriterion_def invalidBox_def Let_def
      split: option.splits)

lemma filter_snd_enumerate:
  "map snd (filter (\<lambda>(i, x). P x) (enumerate n xs)) = filter P xs"
proof -
  have e: "(\<lambda>(i, x). P x) = P \<circ> snd" by auto
  have "filter P xs = filter P (map snd (enumerate n xs))" by simp
  also have "\<dots> = map snd (filter (P \<circ> snd) (enumerate n xs))" by (rule filter_map)
  finally show ?thesis unfolding e by simp
qed

lemma detectAndDescribeUI_kept:
  "detectAndDescribeUI lc w h clock objs =
     map (\<lambda>(i, obj). the (mapDetected lc w h (clock i) i obj))
       (filter (\<lambda>(i, obj). \<not> rejectCriterion w h obj) (enumerate 0 objs))"
proof -
  have "(\<lambda>x. (case x of (i, obj) \<Rightarrow> mapDetected lc w h (clock i) i obj) \<noteq> None) =
      (\<lambda>(i, obj). \<not> rejectCriterion w h obj)"
  proof (rule ext)
    fix x :: "nat \<times> DetectedObject"
    obtain i obj where x: "x = (i, obj)" by (cases x)
    have "(mapDetected lc w h (clock i) i obj \<noteq> None) = (\<not> rejectCriterion w h obj)"
      by (simp only: mapDetected_None_iff)
    then show "((case x of (i, obj) \<Rightarrow> mapDetected lc w h (clock i) i obj) \<noteq> None) =
        (case x of (i, obj) \<Rightarrow> \<not> rejectCriterion w h obj)"
      unfolding x by (simp only: prod.case)
  qed
  then show ?thesis
    by (simp add: detectAndDescribeUI_def map_filter_def comp_def case_prod_beta)
qed

text \<open>
  C4. The function applied to each raw box returns no record exactly when the box meets
  the rejection rule. The batch function is total and returns, in the original order,
  the records of the boxes that do not meet the rule and nothing for the others, so a
  batch of rejected boxes only gives the empty list. This holds whatever the lower-case
  function is.
\<close>

theorem invalid_boxes_discarded:
  "(mapDetected lc w h now i obj = None \<longleftrightarrow> rejectCriterion w h obj) \<and>
   detectAndDescribeUI lc w h clock objs =
     map (\<lambda>(i, obj). the (mapDetected lc w h (clock i) i obj))
       (filter (\<lambda>(i, obj). \<not> rejectCriterion w h obj) (enumerate 0 objs)) \<and>
   length (detectAndDescribeUI lc w h clock objs) =
     length (filter (\<lambda>obj. \<not> rejectCriterion w h obj) objs) \<and>
   ((\<forall>obj\<in>set objs. rejectCriterion w h obj) \<longrightarrow> detectAndDescribeUI lc w h clock objs = [])"
proof (intro conjI)
  show "mapDetected lc w h now i obj = None \<longleftrightarrow> rejectCriterion w h obj"
    by (rule mapDetected_None_iff)
  show k: "detectAndDescribeUI lc w h clock objs =
     map (\<lambda>(i, obj). the (mapDetected lc w h (clock i) i obj))
       (filter (\<lambda>(i, obj). \<not> rejectCriterion w h obj) (enumerate 0 objs))"
    by (rule detectAndDescribeUI_kept)
  have "length (detectAndDescribeUI lc w h clock objs) =
      length (map snd (filter (\<lambda>(i, obj). \<not> rejectCriterion w h obj) (enumerate 0 objs)))"
    unfolding k by simp
  then show l: "length (detectAndDescribeUI lc w h clock objs) =
     length (filter (\<lambda>obj. \<not> rejectCriterion w h obj) objs)"
    by (simp only: filter_snd_enumerate)
  show "(\<forall>obj\<in>set objs. rejectCriterion w h obj) \<longrightarrow> detectAndDescribeUI lc w h clock objs = []"
  proof
    assume "\<forall>obj\<in>set objs. rejectCriterion w h obj"
    then have "filter (\<lambda>obj. \<not> rejectCriterion w h obj) objs = []" by simp
    with l show "detectAndDescribeUI lc w h clock objs = []" by simp
  qed
qed

theorem invalid_boxes_discarded_witness:
  "\<forall>lc. detectAndDescribeUI lc 800 600 (\<lambda>i. 1000)
     [\<lparr>topLeft = Some \<lparr>px = 50, py = 10\<rparr>, bottomRight = Some \<lparr>px = 50, py = 40\<rparr>,
       rawDescription = ''a'', rawElementType = Some ''button''\<rparr>,
      \<lparr>topLeft = Some \<lparr>px = - 50, py = - 50\<rparr>, bottomRight = Some \<lparr>px = - 10, py = - 10\<rparr>,
       rawDescription = ''b'', rawElementType = Some ''link''\<rparr>,
      \<lparr>topLeft = None, bottomRight = Some \<lparr>px = 10, py = 10\<rparr>,
       rawDescription = ''c'', rawElementType = Some ''tab''\<rparr>] = []"
proof
  fix lc :: "string \<Rightarrow> string"
  let ?objs = "[\<lparr>topLeft = Some \<lparr>px = 50, py = 10\<rparr>, bottomRight = Some \<lparr>px = 50, py = 40\<rparr>,
       rawDescription = ''a'', rawElementType = Some ''button''\<rparr>,
      \<lparr>topLeft = Some \<lparr>px = - 50, py = - 50\<rparr>, bottomRight = Some \<lparr>px = - 10, py = - 10\<rparr>,
       rawDescription = ''b'', rawElementType = Some ''link''\<rparr>,
      \<lparr>topLeft = None, bottomRight = Some \<lparr>px = 10, py = 10\<rparr>,
       rawDescription = ''c'', rawElementType = Some ''tab''\<rparr>]"
  have "\<forall>obj\<in>set ?objs. rejectCriterion 800 600 obj"
    by (simp add: rejectCriterion_def)
  with invalid_boxes_discarded [of lc 800 600 0 0 "hd ?objs" "\<lambda>i. 1000" ?objs]
  show "detectAndDescribeUI lc 800 600 (\<lambda>i. 1000) ?objs = []" by blast
qed

lemma accepted_corners:
  assumes "\<not> invalidBox w h topL botR"
  shows "0 \<le> px (clampedTopLeft topL)" "px (clampedTopLeft topL) \<le> real w"
    "0 \<le> py (clampedTopLeft topL)" "py (clampedTopLeft topL) \<le> real h"
    "0 \<le> px (clampedBottomRight w h botR)" "px (clampedBottomRight w h botR) \<le> real w"
    "0 \<le> py (clampedBottomRight w h botR)" "py (clampedBottomRight w h botR) \<le> real h"
  using assms by (auto simp: invalidBox_def clampedTopLeft_def clampedBottomRight_def)

text \<open>
  C5. For every accepted box with the corners \<open>topL\<close> and \<open>botR\<close>, the clamped top-left
  corner is \<open>(max 0 topL.x, max 0 topL.y)\<close> and the clamped bottom-right corner is
  \<open>(min width botR.x, min height botR.y)\<close>; both lie in \<open>[0,width] \<times> [0,height]\<close>, and each
  coordinate that was in range is unchanged. The point of the annotation is the top-right
  corner of the clamped box, \<open>(min width botR.x, max 0 topL.y)\<close>; the second clamp does not
  change it. The box \<open>{700,10}\<close>, \<open>{900,50}\<close> on an 800 by 600 image gets the point
  \<open>{800, 10}\<close>.
\<close>

theorem anchor_is_clamped_top_right:
  "(mapDetected lc w h now i obj = Some a \<longrightarrow>
      (\<exists>topL botR. topLeft obj = Some topL \<and> bottomRight obj = Some botR \<and>
         clampedTopLeft topL = \<lparr>px = max 0 (px topL), py = max 0 (py topL)\<rparr> \<and>
         clampedBottomRight w h botR =
           \<lparr>px = min (real w) (px botR), py = min (real h) (py botR)\<rparr> \<and>
         0 \<le> max 0 (px topL) \<and> max 0 (px topL) \<le> real w \<and>
         0 \<le> max 0 (py topL) \<and> max 0 (py topL) \<le> real h \<and>
         0 \<le> min (real w) (px botR) \<and> min (real w) (px botR) \<le> real w \<and>
         0 \<le> min (real h) (py botR) \<and> min (real h) (py botR) \<le> real h \<and>
         (0 \<le> px topL \<longrightarrow> px (clampedTopLeft topL) = px topL) \<and>
         (0 \<le> py topL \<longrightarrow> py (clampedTopLeft topL) = py topL) \<and>
         (px botR \<le> real w \<longrightarrow> px (clampedBottomRight w h botR) = px botR) \<and>
         (py botR \<le> real h \<longrightarrow> py (clampedBottomRight w h botR) = py botR) \<and>
         point a =
           \<lparr>px = max 0 (min (min (real w) (px botR)) (real w)),
            py = max 0 (min (max 0 (py topL)) (real h))\<rparr> \<and>
         point a = \<lparr>px = min (real w) (px botR), py = max 0 (py topL)\<rparr>)) \<and>
   map_option point
     (mapDetected lc 800 600 now i
        \<lparr>topLeft = Some \<lparr>px = 700, py = 10\<rparr>, bottomRight = Some \<lparr>px = 900, py = 50\<rparr>,
         rawDescription = d, rawElementType = e\<rparr>) = Some \<lparr>px = 800, py = 10\<rparr>"
proof (intro conjI impI)
  assume m: "mapDetected lc w h now i obj = Some a"
  then obtain topL botR where c: "topLeft obj = Some topL" "bottomRight obj = Some botR"
    and v: "\<not> invalidBox w h topL botR"
    by (auto simp: mapDetected_def split: option.splits if_splits)
  note b = accepted_corners [OF v]
  have t: "clampedTopLeft topL = \<lparr>px = max 0 (px topL), py = max 0 (py topL)\<rparr>"
    by (simp add: clampedTopLeft_def)
  have r: "clampedBottomRight w h botR =
           \<lparr>px = min (real w) (px botR), py = min (real h) (py botR)\<rparr>"
    by (simp add: clampedBottomRight_def)
  from b have b': "0 \<le> max 0 (px topL)" "max 0 (px topL) \<le> real w"
         "0 \<le> max 0 (py topL)" "max 0 (py topL) \<le> real h"
         "0 \<le> min (real w) (px botR)" "min (real w) (px botR) \<le> real w"
         "0 \<le> min (real h) (py botR)" "min (real h) (py botR) \<le> real h"
    unfolding t r by simp_all
  have u: "0 \<le> px topL \<longrightarrow> px (clampedTopLeft topL) = px topL"
         "0 \<le> py topL \<longrightarrow> py (clampedTopLeft topL) = py topL"
         "px botR \<le> real w \<longrightarrow> px (clampedBottomRight w h botR) = px botR"
         "py botR \<le> real h \<longrightarrow> py (clampedBottomRight w h botR) = py botR"
    unfolding t r by simp_all
  from m c v have p: "point a =
           \<lparr>px = max 0 (min (min (real w) (px botR)) (real w)),
            py = max 0 (min (max 0 (py topL)) (real h))\<rparr>"
    by (auto simp: mapDetected_def Let_def t r)
  with b' have q: "point a = \<lparr>px = min (real w) (px botR), py = max 0 (py topL)\<rparr>"
    by simp
  from c t r b' u p q show "\<exists>topL botR. topLeft obj = Some topL \<and> bottomRight obj = Some botR \<and>
         clampedTopLeft topL = \<lparr>px = max 0 (px topL), py = max 0 (py topL)\<rparr> \<and>
         clampedBottomRight w h botR =
           \<lparr>px = min (real w) (px botR), py = min (real h) (py botR)\<rparr> \<and>
         0 \<le> max 0 (px topL) \<and> max 0 (px topL) \<le> real w \<and>
         0 \<le> max 0 (py topL) \<and> max 0 (py topL) \<le> real h \<and>
         0 \<le> min (real w) (px botR) \<and> min (real w) (px botR) \<le> real w \<and>
         0 \<le> min (real h) (py botR) \<and> min (real h) (py botR) \<le> real h \<and>
         (0 \<le> px topL \<longrightarrow> px (clampedTopLeft topL) = px topL) \<and>
         (0 \<le> py topL \<longrightarrow> py (clampedTopLeft topL) = py topL) \<and>
         (px botR \<le> real w \<longrightarrow> px (clampedBottomRight w h botR) = px botR) \<and>
         (py botR \<le> real h \<longrightarrow> py (clampedBottomRight w h botR) = py botR) \<and>
         point a =
           \<lparr>px = max 0 (min (min (real w) (px botR)) (real w)),
            py = max 0 (min (max 0 (py topL)) (real h))\<rparr> \<and>
         point a = \<lparr>px = min (real w) (px botR), py = max 0 (py topL)\<rparr>"
    by blast
next
  show "map_option point
     (mapDetected lc 800 600 now i
        \<lparr>topLeft = Some \<lparr>px = 700, py = 10\<rparr>, bottomRight = Some \<lparr>px = 900, py = 50\<rparr>,
         rawDescription = d, rawElementType = e\<rparr>) = Some \<lparr>px = 800, py = 10\<rparr>"
    by (simp add: mapDetected_def invalidBox_def clampedTopLeft_def clampedBottomRight_def Let_def)
qed

theorem anchor_is_clamped_top_right_witness:
  "\<forall>lc. map_option point
     (mapDetected lc 800 600 1000 0
        \<lparr>topLeft = Some \<lparr>px = 100, py = 20\<rparr>, bottomRight = Some \<lparr>px = 300, py = 50\<rparr>,
         rawDescription = ''save'', rawElementType = Some ''button''\<rparr>) =
     Some \<lparr>px = 300, py = 20\<rparr> \<and>
   map_option point
     (mapDetected lc 800 600 1000 1
        \<lparr>topLeft = Some \<lparr>px = - 30, py = - 5\<rparr>, bottomRight = Some \<lparr>px = 900, py = 700\<rparr>,
         rawDescription = ''page'', rawElementType = Some ''image''\<rparr>) =
     Some \<lparr>px = 800, py = 0\<rparr>"
proof (intro allI conjI)
  fix lc :: "string \<Rightarrow> string"
  let ?o1 = "\<lparr>topLeft = Some \<lparr>px = 100, py = 20\<rparr>, bottomRight = Some \<lparr>px = 300, py = 50\<rparr>,
         rawDescription = ''save'', rawElementType = Some ''button''\<rparr>"
  let ?o2 = "\<lparr>topLeft = Some \<lparr>px = - 30, py = - 5\<rparr>, bottomRight = Some \<lparr>px = 900, py = 700\<rparr>,
         rawDescription = ''page'', rawElementType = Some ''image''\<rparr>"
  have "\<not> invalidBox 800 600 \<lparr>px = 100, py = 20\<rparr> \<lparr>px = 300, py = 50\<rparr>"
    by (simp add: invalidBox_def)
  then obtain a where a: "mapDetected lc 800 600 1000 0 ?o1 = Some a"
    by (simp add: mapDetected_def Let_def)
  with anchor_is_clamped_top_right [of lc 800 600 1000 0 ?o1 a]
  have "point a = \<lparr>px = min (real 800) (px \<lparr>px = 300, py = 50\<rparr>),
                   py = max 0 (py \<lparr>px = 100, py = 20\<rparr>)\<rparr>"
    by auto
  then have "point a = \<lparr>px = 300, py = 20\<rparr>" by simp
  with a show "map_option point (mapDetected lc 800 600 1000 0 ?o1) = Some \<lparr>px = 300, py = 20\<rparr>"
    by simp
  have "\<not> invalidBox 800 600 \<lparr>px = - 30, py = - 5\<rparr> \<lparr>px = 900, py = 700\<rparr>"
    by (simp add: invalidBox_def)
  then obtain b where b: "mapDetected lc 800 600 1000 1 ?o2 = Some b"
    by (simp add: mapDetected_def Let_def)
  with anchor_is_clamped_top_right [of lc 800 600 1000 1 ?o2 b]
  have "point b = \<lparr>px = min (real 800) (px \<lparr>px = 900, py = 700\<rparr>),
                   py = max 0 (py \<lparr>px = - 30, py = - 5\<rparr>)\<rparr>"
    by auto
  then have "point b = \<lparr>px = 800, py = 0\<rparr>" by simp
  with b show "map_option point (mapDetected lc 800 600 1000 1 ?o2) = Some \<lparr>px = 800, py = 0\<rparr>"
    by simp
qed

lemma mapDetected_Some:
  assumes "mapDetected lc w h now i obj = Some a"
  shows "elementType a = elementTypeOrOther (rawElementType obj)"
    and "annotationType a =
      (if lc (elementType a) \<in> set ACTIONABLE_TYPES then Actionable else General)"
  using assms by (auto simp: mapDetected_def Let_def split: option.splits if_splits)

text \<open>
  C6. Whatever function \<open>lc\<close> the call \<open>elementType.toLowerCase()\<close> computes: for every
  accepted box an element type that is absent or the empty string becomes \<open>other\<close> and
  any other string is kept as it is; the annotation is actionable exactly when \<open>lc\<close> of
  the element type is \<open>button\<close>, \<open>link\<close> or \<open>tab\<close>, and general otherwise. Since lower
  case leaves \<open>tab\<close> and \<open>input\<close> as they are, the element type \<open>tab\<close> gives an actionable
  and \<open>input\<close> a general annotation.
\<close>

theorem classification:
  "(mapDetected lc w h now i obj = Some a \<longrightarrow>
      (rawElementType obj = None \<or> rawElementType obj = Some '''' \<longrightarrow> elementType a = ''other'') \<and>
      (\<forall>t. rawElementType obj = Some t \<and> t \<noteq> '''' \<longrightarrow> elementType a = t) \<and>
      (annotationType a = Actionable \<longleftrightarrow>
         lc (elementType a) \<in> {''button'', ''link'', ''tab''}) \<and>
      (annotationType a = General \<longleftrightarrow>
         lc (elementType a) \<notin> {''button'', ''link'', ''tab''})) \<and>
   (mapDetected lc w h now i obj = Some a \<and> rawElementType obj = Some ''tab'' \<and>
      lc ''tab'' = ''tab'' \<longrightarrow> annotationType a = Actionable) \<and>
   (mapDetected lc w h now i obj = Some a \<and> rawElementType obj = Some ''input'' \<and>
      lc ''input'' = ''input'' \<longrightarrow> annotationType a = General)"
proof (intro conjI impI)
  assume m: "mapDetected lc w h now i obj = Some a"
  note s = mapDetected_Some [OF m]
  show "elementType a = ''other''"
    if "rawElementType obj = None \<or> rawElementType obj = Some ''''"
    using that s(1) by (auto simp: elementTypeOrOther_def)
  show "\<forall>t. rawElementType obj = Some t \<and> t \<noteq> '''' \<longrightarrow> elementType a = t"
    using s(1) by (auto simp: elementTypeOrOther_def)
  show "annotationType a = Actionable \<longleftrightarrow>
         lc (elementType a) \<in> {''button'', ''link'', ''tab''}"
    using s(2) by (auto simp: ACTIONABLE_TYPES_def)
  show "annotationType a = General \<longleftrightarrow>
         lc (elementType a) \<notin> {''button'', ''link'', ''tab''}"
    using s(2) by (auto simp: ACTIONABLE_TYPES_def)
next
  assume "mapDetected lc w h now i obj = Some a \<and> rawElementType obj = Some ''tab'' \<and>
      lc ''tab'' = ''tab''"
  then have m: "mapDetected lc w h now i obj = Some a" and r: "rawElementType obj = Some ''tab''"
    and l: "lc ''tab'' = ''tab''"
    by simp_all
  have "elementType a = ''tab''"
    using mapDetected_Some(1) [OF m] r by (simp add: elementTypeOrOther_def)
  with l show "annotationType a = Actionable"
    using mapDetected_Some(2) [OF m] by (simp add: ACTIONABLE_TYPES_def)
next
  assume "mapDetected lc w h now i obj = Some a \<and> rawElementType obj = Some ''input'' \<and>
      lc ''input'' = ''input''"
  then have m: "mapDetected lc w h now i obj = Some a" and r: "rawElementType obj = Some ''input''"
    and l: "lc ''input'' = ''input''"
    by simp_all
  have "elementType a = ''input''"
    using mapDetected_Some(1) [OF m] r by (simp add: elementTypeOrOther_def)
  with l show "annotationType a = General"
    using mapDetected_Some(2) [OF m] by (simp add: ACTIONABLE_TYPES_def)
qed

theorem classification_witness:
  "map_option (\<lambda>a. (elementType a, annotationType a))
     (mapDetected asciiLowerCase 800 600 1000 0
        \<lparr>topLeft = Some \<lparr>px = 10, py = 10\<rparr>, bottomRight = Some \<lparr>px = 90, py = 40\<rparr>,
         rawDescription = ''menu'', rawElementType = Some ''TAB''\<rparr>) =
     Some (''TAB'', Actionable) \<and>
   map_option (\<lambda>a. (elementType a, annotationType a))
     (mapDetected asciiLowerCase 800 600 1000 1
        \<lparr>topLeft = Some \<lparr>px = 10, py = 60\<rparr>, bottomRight = Some \<lparr>px = 90, py = 90\<rparr>,
         rawDescription = ''name'', rawElementType = Some ''input''\<rparr>) =
     Some (''input'', General)"
proof
  let ?o1 = "\<lparr>topLeft = Some \<lparr>px = 10, py = 10\<rparr>, bottomRight = Some \<lparr>px = 90, py = 40\<rparr>,
         rawDescription = ''menu'', rawElementType = Some ''TAB''\<rparr>"
  let ?o2 = "\<lparr>topLeft = Some \<lparr>px = 10, py = 60\<rparr>, bottomRight = Some \<lparr>px = 90, py = 90\<rparr>,
         rawDescription = ''name'', rawElementType = Some ''input''\<rparr>"
  have "\<not> invalidBox 800 600 \<lparr>px = 10, py = 10\<rparr> \<lparr>px = 90, py = 40\<rparr>"
    by (simp add: invalidBox_def)
  then obtain a where a: "mapDetected asciiLowerCase 800 600 1000 0 ?o1 = Some a"
    by (simp add: mapDetected_def Let_def)
  from classification [of asciiLowerCase 800 600 1000 0 ?o1 a] a
  have e: "elementType a = ''TAB''"
    and t: "annotationType a = Actionable \<longleftrightarrow>
         asciiLowerCase (elementType a) \<in> {''button'', ''link'', ''tab''}"
    by simp_all
  have "asciiLowerCase ''TAB'' = ''tab''"
    by (simp add: asciiLowerCase_def asciiLowerChar_def)
  with e t have "annotationType a = Actionable" by simp
  with a e show "map_option (\<lambda>a. (elementType a, annotationType a))
     (mapDetected asciiLowerCase 800 600 1000 0 ?o1) = Some (''TAB'', Actionable)"
    by simp
  have "\<not> invalidBox 800 600 \<lparr>px = 10, py = 60\<rparr> \<lparr>px = 90, py = 90\<rparr>"
    by (simp add: invalidBox_def)
  then obtain b where b: "mapDetected asciiLowerCase 800 600 1000 1 ?o2 = Some b"
    by (simp add: mapDetected_def Let_def)
  have l: "asciiLowerCase ''input'' = ''input''"
    by (simp add: asciiLowerCase_def asciiLowerChar_def)
  from classification [of asciiLowerCase 800 600 1000 1 ?o2 b] b l
  have "elementType b = ''input''" and "annotationType b = General"
    by simp_all
  with b show "map_option (\<lambda>a. (elementType a, annotationType a))
     (mapDetected asciiLowerCase 800 600 1000 1 ?o2) = Some (''input'', General)"
    by simp
qed

text \<open>
  The same theorem covers the letters outside ASCII: where lower case sends an element
  type to \<open>link\<close>, as it does for \<open>lin\<close> followed by the Kelvin sign, the annotation is
  actionable.
\<close>

lemma lower_case_to_link_is_actionable:
  assumes "mapDetected lc w h now i obj = Some a"
    and "rawElementType obj = Some t" and "t \<noteq> ''''" and "lc t = ''link''"
  shows "annotationType a = Actionable"
proof -
  have "elementType a = t"
    using mapDetected_Some(1) [OF assms(1)] assms(2,3) by (simp add: elementTypeOrOther_def)
  with assms(4) show ?thesis
    using mapDetected_Some(2) [OF assms(1)] by (simp add: ACTIONABLE_TYPES_def)
qed

section \<open>Properties of the interaction controller\<close>

lemma distance_same: "exactAtZero ar \<Longrightarrow> distance ar p p = 0"
  by (simp add: exactAtZero_def distance_def)

lemma realArith_exactAtZero: "exactAtZero realArith"
  by (simp add: exactAtZero_def realArith_def)

lemma distance_realArith:
  "distance realArith p q = sqrt ((px p - px q)\<^sup>2 + (py p - py q)\<^sup>2)"
  by (simp add: distance_def realArith_def)

lemma within_radius_real:
  "distance realArith p q \<le> 14 \<longleftrightarrow> (px p - px q)\<^sup>2 + (py p - py q)\<^sup>2 \<le> 196"
proof -
  have "distance realArith p q \<le> 14 \<longleftrightarrow>
      sqrt ((px p - px q)\<^sup>2 + (py p - py q)\<^sup>2) \<le> sqrt (14\<^sup>2)"
    by (simp add: distance_realArith)
  also have "\<dots> \<longleftrightarrow> (px p - px q)\<^sup>2 + (py p - py q)\<^sup>2 \<le> 14\<^sup>2"
    by (rule real_sqrt_le_iff)
  finally show ?thesis by simp
qed

lemma click_distance_real:
  "distance realArith p q < 5 \<longleftrightarrow> (px p - px q)\<^sup>2 + (py p - py q)\<^sup>2 < 25"
proof -
  have "distance realArith p q < 5 \<longleftrightarrow>
      sqrt ((px p - px q)\<^sup>2 + (py p - py q)\<^sup>2) < sqrt (5\<^sup>2)"
    by (simp add: distance_realArith)
  also have "\<dots> \<longleftrightarrow> (px p - px q)\<^sup>2 + (py p - py q)\<^sup>2 < 5\<^sup>2"
    by (rule real_sqrt_less_iff)
  finally show ?thesis by simp
qed

lemma scanDown_find:
  "n \<le> length anns \<Longrightarrow>
   scanDown ar anns p n = List.find (\<lambda>a. distance ar p (point a) \<le> 14) (rev (take n anns))"
proof (induction n)
  case 0
  then show ?case by simp
next
  case (Suc n)
  then have "take (Suc n) anns = take n anns @ [anns ! n]"
    by (simp add: take_Suc_conv_app_nth)
  with Suc show ?case by simp
qed

lemma getAnnotationAtPos_find:
  "getAnnotationAtPos ar anns p = List.find (\<lambda>a. distance ar p (point a) \<le> 14) (rev anns)"
  by (simp add: getAnnotationAtPos_def scanDown_find)

lemma find_Some_member: "List.find P xs = Some a \<Longrightarrow> a \<in> set xs \<and> P a"
  by (induction xs) (auto split: if_splits)

lemma getAnnotationAtPos_Some:
  "getAnnotationAtPos ar anns p = Some a \<Longrightarrow> a \<in> set anns \<and> distance ar p (point a) \<le> 14"
  unfolding getAnnotationAtPos_find by (auto dest: find_Some_member)

lemma getAnnotationAtPos_None:
  "getAnnotationAtPos ar anns p = None \<longleftrightarrow> (\<forall>a\<in>set anns. \<not> distance ar p (point a) \<le> 14)"
  unfolding getAnnotationAtPos_find by (auto simp: find_None_iff)

lemma mathRound_int: "mathRound v \<in> \<int>"
  by (simp add: mathRound_def)

lemma mathRound_near: "\<bar>mathRound v - v\<bar> \<le> 1 / 2"
  unfolding mathRound_def by linarith

lemma mathRound_of_int: "mathRound (of_int k) = of_int k"
proof -
  have "\<lfloor>(of_int k :: real) + 1 / 2\<rfloor> = k" by linarith
  then show ?thesis by (simp add: mathRound_def)
qed

lemma handleMouseMove_idle:
  "draggingAnnotationId (canvas s) = None \<Longrightarrow> handleMouseMove e s = s"
  by (simp add: handleMouseMove_def)

lemma moves_idle:
  "draggingAnnotationId (canvas s) = None \<Longrightarrow> foldl (\<lambda>t m. handleMouseMove m t) s moves = s"
  by (induction moves) (simp_all add: handleMouseMove_idle)

text \<open>
  A press on a marker followed by a release, whatever lies between the two positions,
  leaves the application state as it was: the release takes the recorded id for a drag.
  The toggle is reached only from a press that hit no marker.
\<close>

lemma press_on_marker_release_keeps_app:
  assumes "button down = 0"
    and "getAnnotationAtPos ar (canvasAnnotations s) (pos down) = Some m"
  shows "app (handleMouseUp ar now up (handleMouseDown ar down s)) = app s"
proof -
  from assms have d: "draggingAnnotationId (canvas (handleMouseDown ar down s)) = Some (annId m)"
    and a: "app (handleMouseDown ar down s) = app s"
    by (simp_all add: handleMouseDown_def Let_def)
  from d a show ?thesis
    by (simp add: handleMouseUp_def Let_def split: option.splits)
qed

lemma release_toggles_when_idle:
  assumes "draggingAnnotationId (canvas s) = None"
    and "dragStartPos (canvas s) = Some start"
    and "button up = 0"
    and "distance ar (pos up) start < 5"
    and "getAnnotationAtPos ar (canvasAnnotations s) (pos up) = Some m"
  shows "app (handleMouseUp ar now up s) =
     (app s)\<lparr>selectedAnnotationId :=
        (if selectedAnnotationId (app s) = Some (annId m) then None else Some (annId m))\<rparr>"
  using assms by (simp add: handleMouseUp_def Let_def)

text \<open>
  C3. A press and a release of the primary button at \<open>(100,100)\<close>, on a marker that lies
  at \<open>(100,100)\<close> and is not selected, with no move in between: the release position hits
  the marker and the computed distance is 0, yet the session after the release is the
  session before the press, so the marker is not selected. The press has recorded the id
  of the marker as the dragged one, and the release takes that for a drag. This holds
  for every arithmetic that is exact at zero.
\<close>

theorem click_on_marker_does_not_select:
  assumes "exactAtZero ar"
  shows "getAnnotationAtPos ar
     (canvasAnnotations
        \<lparr>app = \<lparr>annotations =
                  [\<lparr>annId = 7, point = \<lparr>px = 100, py = 100\<rparr>, description = ''save'',
                    elementType = ''button'', annotationType = Actionable\<rparr>],
                displayFilter = FilterAll, manualAnnotationType = General,
                selectedAnnotationId = None, annotationToDelete = None\<rparr>,
         canvas = \<lparr>draggingAnnotationId = None, dragStartPos = None\<rparr>\<rparr>)
     \<lparr>px = 100, py = 100\<rparr> =
     Some \<lparr>annId = 7, point = \<lparr>px = 100, py = 100\<rparr>, description = ''save'',
           elementType = ''button'', annotationType = Actionable\<rparr> \<and>
   distance ar \<lparr>px = 100, py = 100\<rparr> \<lparr>px = 100, py = 100\<rparr> < 5 \<and>
   handleMouseUp ar 2000 \<lparr>button = 0, pos = \<lparr>px = 100, py = 100\<rparr>\<rparr>
     (handleMouseDown ar \<lparr>button = 0, pos = \<lparr>px = 100, py = 100\<rparr>\<rparr>
        \<lparr>app = \<lparr>annotations =
                  [\<lparr>annId = 7, point = \<lparr>px = 100, py = 100\<rparr>, description = ''save'',
                    elementType = ''button'', annotationType = Actionable\<rparr>],
                displayFilter = FilterAll, manualAnnotationType = General,
                selectedAnnotationId = None, annotationToDelete = None\<rparr>,
         canvas = \<lparr>draggingAnnotationId = None, dragStartPos = None\<rparr>\<rparr>) =
     \<lparr>app = \<lparr>annotations =
                  [\<lparr>annId = 7, point = \<lparr>px = 100, py = 100\<rparr>, description = ''save'',
                    elementType = ''button'', annotationType = Actionable\<rparr>],
                displayFilter = FilterAll, manualAnnotationType = General,
                selectedAnnotationId = None, annotationToDelete = None\<rparr>,
         canvas = \<lparr>draggingAnnotationId = None, dragStartPos = None\<rparr>\<rparr>"
  using distance_same [OF assms, of "\<lparr>px = 100, py = 100\<rparr>"]
  by (simp add: handleMouseUp_def handleMouseDown_def canvasAnnotations_def
      sortedAnnotations_def filteredAnnotations_def getAnnotationAtPos_find Let_def)

theorem click_on_marker_does_not_select_witness:
  "exactAtZero realArith \<and>
   handleMouseUp realArith 2000 \<lparr>button = 0, pos = \<lparr>px = 100, py = 100\<rparr>\<rparr>
     (handleMouseDown realArith \<lparr>button = 0, pos = \<lparr>px = 100, py = 100\<rparr>\<rparr>
        \<lparr>app = \<lparr>annotations =
                  [\<lparr>annId = 7, point = \<lparr>px = 100, py = 100\<rparr>, description = ''save'',
                    elementType = ''button'', annotationType = Actionable\<rparr>],
                displayFilter = FilterAll, manualAnnotationType = General,
                selectedAnnotationId = None, annotationToDelete = None\<rparr>,
         canvas = \<lparr>draggingAnnotationId = None, dragStartPos = None\<rparr>\<rparr>) =
     \<lparr>app = \<lparr>annotations =
                  [\<lparr>annId = 7, point = \<lparr>px = 100, py = 100\<rparr>, description = ''save'',
                    elementType = ''button'', annotationType = Actionable\<rparr>],
                displayFilter = FilterAll, manualAnnotationType = General,
                selectedAnnotationId = None, annotationToDelete = None\<rparr>,
         canvas = \<lparr>draggingAnnotationId = None, dragStartPos = None\<rparr>\<rparr>"
  using click_on_marker_does_not_select [OF realArith_exactAtZero] realArith_exactAtZero
  by blast

text \<open>
  C7. From an idle controller, a press of the primary button that hits no marker, any
  moves, and a release whose computed distance from the press is less than 5 over empty
  space append exactly one annotation to the store: its point is the release position
  with both coordinates rounded to the nearest integer, its type is the manual-creation
  type, its element type is \<open>manual\<close>, its description is empty and its id is the clock
  reading; it becomes the selected annotation and the controller is idle again. Distance
  and hits are the ones the code computes, with whatever arithmetic. The instance after
  the theorem is the click at \<open>(300,400)\<close>.
\<close>

theorem click_on_empty_space_adds:
  assumes "draggingAnnotationId (canvas s) = None"
    and "button down = 0" and "button up = 0"
    and "getAnnotationAtPos ar (canvasAnnotations s) (pos down) = None"
    and "distance ar (pos up) (pos down) < 5"
    and "getAnnotationAtPos ar (canvasAnnotations s) (pos up) = None"
  shows "handleMouseUp ar now up
           (foldl (\<lambda>t m. handleMouseMove m t) (handleMouseDown ar down s) moves) =
         \<lparr>app = (app s)\<lparr>annotations := annotations (app s) @
                   [\<lparr>annId = now,
                     point = \<lparr>px = mathRound (px (pos up)), py = mathRound (py (pos up))\<rparr>,
                     description = '''', elementType = ''manual'',
                     annotationType = manualAnnotationType (app s)\<rparr>],
                  selectedAnnotationId := Some now\<rparr>,
          canvas = \<lparr>draggingAnnotationId = None, dragStartPos = None\<rparr>\<rparr> \<and>
         mathRound (px (pos up)) \<in> \<int> \<and> mathRound (py (pos up)) \<in> \<int> \<and>
         \<bar>mathRound (px (pos up)) - px (pos up)\<bar> \<le> 1 / 2 \<and>
         \<bar>mathRound (py (pos up)) - py (pos up)\<bar> \<le> 1 / 2"
proof -
  let ?s1 = "handleMouseDown ar down s"
  from assms(1,2,4) have s1: "?s1 = s\<lparr>canvas := (canvas s)\<lparr>dragStartPos := Some (pos down)\<rparr>\<rparr>"
    by (simp add: handleMouseDown_def Let_def)
  then have idle: "draggingAnnotationId (canvas ?s1) = None"
    using assms(1) by simp
  then have m: "foldl (\<lambda>t m. handleMouseMove m t) ?s1 moves = ?s1"
    by (rule moves_idle)
  have c: "canvasAnnotations ?s1 = canvasAnnotations s"
    by (simp add: s1 canvasAnnotations_def)
  have "handleMouseUp ar now up ?s1 =
         \<lparr>app = addAnnotation now (roundPoint (pos up)) (app s),
          canvas = \<lparr>draggingAnnotationId = None, dragStartPos = None\<rparr>\<rparr>"
    using assms(3,5,6) idle c by (simp add: handleMouseUp_def Let_def s1)
  then show ?thesis
    unfolding m
    using mathRound_near [of "px (pos up)"] mathRound_near [of "py (pos up)"]
    by (simp add: addAnnotation_def roundPoint_def Let_def mathRound_int)
qed

theorem click_on_empty_space_adds_witness:
  "handleMouseUp realArith 2000 \<lparr>button = 0, pos = \<lparr>px = 300, py = 400\<rparr>\<rparr>
     (handleMouseDown realArith \<lparr>button = 0, pos = \<lparr>px = 300, py = 400\<rparr>\<rparr>
        \<lparr>app = \<lparr>annotations =
                  [\<lparr>annId = 7, point = \<lparr>px = 100, py = 100\<rparr>, description = ''save'',
                    elementType = ''button'', annotationType = Actionable\<rparr>],
                displayFilter = FilterAll, manualAnnotationType = General,
                selectedAnnotationId = None, annotationToDelete = None\<rparr>,
         canvas = \<lparr>draggingAnnotationId = None, dragStartPos = None\<rparr>\<rparr>) =
   \<lparr>app = \<lparr>annotations =
             [\<lparr>annId = 7, point = \<lparr>px = 100, py = 100\<rparr>, description = ''save'',
               elementType = ''button'', annotationType = Actionable\<rparr>,
              \<lparr>annId = 2000, point = \<lparr>px = 300, py = 400\<rparr>, description = '''',
               elementType = ''manual'', annotationType = General\<rparr>],
           displayFilter = FilterAll, manualAnnotationType = General,
           selectedAnnotationId = Some 2000, annotationToDelete = None\<rparr>,
    canvas = \<lparr>draggingAnnotationId = None, dragStartPos = None\<rparr>\<rparr> \<and>
   annotations (app
     (handleMouseUp realArith 2000 \<lparr>button = 0, pos = \<lparr>px = 300.4, py = 399.5\<rparr>\<rparr>
       (handleMouseDown realArith \<lparr>button = 0, pos = \<lparr>px = 300, py = 400\<rparr>\<rparr>
          \<lparr>app = \<lparr>annotations =
                    [\<lparr>annId = 7, point = \<lparr>px = 100, py = 100\<rparr>, description = ''save'',
                      elementType = ''button'', annotationType = Actionable\<rparr>],
                  displayFilter = FilterAll, manualAnnotationType = General,
                  selectedAnnotationId = None, annotationToDelete = None\<rparr>,
           canvas = \<lparr>draggingAnnotationId = None, dragStartPos = None\<rparr>\<rparr>))) =
     [\<lparr>annId = 7, point = \<lparr>px = 100, py = 100\<rparr>, description = ''save'',
       elementType = ''button'', annotationType = Actionable\<rparr>,
      \<lparr>annId = 2000, point = \<lparr>px = 300, py = 400\<rparr>, description = '''',
       elementType = ''manual'', annotationType = General\<rparr>]"
proof
  let ?s = "\<lparr>app = \<lparr>annotations =
                  [\<lparr>annId = 7, point = \<lparr>px = 100, py = 100\<rparr>, description = ''save'',
                    elementType = ''button'', annotationType = Actionable\<rparr>],
                displayFilter = FilterAll, manualAnnotationType = General,
                selectedAnnotationId = None, annotationToDelete = None\<rparr>,
         canvas = \<lparr>draggingAnnotationId = None, dragStartPos = None\<rparr>\<rparr>"
  let ?e = "\<lparr>button = 0, pos = \<lparr>px = 300, py = 400\<rparr>\<rparr>"
  let ?u = "\<lparr>button = 0, pos = \<lparr>px = 300.4, py = 399.5\<rparr>\<rparr>"
  have 1: "draggingAnnotationId (canvas ?s) = None" by simp
  have 2: "button ?e = 0" "button ?u = 0" by simp_all
  have 3: "getAnnotationAtPos realArith (canvasAnnotations ?s) (pos ?e) = None"
    by (simp add: canvasAnnotations_def sortedAnnotations_def filteredAnnotations_def
        getAnnotationAtPos_find within_radius_real)
  have 4: "distance realArith (pos ?e) (pos ?e) < 5"
    by (simp add: click_distance_real)
  have 5: "getAnnotationAtPos realArith (canvasAnnotations ?s) (pos ?u) = None"
    by (simp add: canvasAnnotations_def sortedAnnotations_def filteredAnnotations_def
        getAnnotationAtPos_find within_radius_real power2_eq_square)
  have 6: "distance realArith (pos ?u) (pos ?e) < 5"
    by (simp add: click_distance_real power2_eq_square)
  have r: "mathRound 300 = 300" "mathRound 400 = 400"
    using mathRound_of_int [of 300] mathRound_of_int [of 400] by simp_all
  from click_on_empty_space_adds [OF 1 2(1) 2(1) 3 4 3, of 2000 "[]"]
  show "handleMouseUp realArith 2000 ?e (handleMouseDown realArith ?e ?s) =
   \<lparr>app = \<lparr>annotations =
             [\<lparr>annId = 7, point = \<lparr>px = 100, py = 100\<rparr>, description = ''save'',
               elementType = ''button'', annotationType = Actionable\<rparr>,
              \<lparr>annId = 2000, point = \<lparr>px = 300, py = 400\<rparr>, description = '''',
               elementType = ''manual'', annotationType = General\<rparr>],
           displayFilter = FilterAll, manualAnnotationType = General,
           selectedAnnotationId = Some 2000, annotationToDelete = None\<rparr>,
    canvas = \<lparr>draggingAnnotationId = None, dragStartPos = None\<rparr>\<rparr>"
    by (simp add: r)
  from click_on_empty_space_adds [OF 1 2(1) 2(2) 3 6 5, of 2000 "[]"]
  have "handleMouseUp realArith 2000 ?u (handleMouseDown realArith ?e ?s) =
         \<lparr>app = (app ?s)\<lparr>annotations := annotations (app ?s) @
                   [\<lparr>annId = 2000,
                     point = \<lparr>px = mathRound (px (pos ?u)), py = mathRound (py (pos ?u))\<rparr>,
                     description = '''', elementType = ''manual'',
                     annotationType = manualAnnotationType (app ?s)\<rparr>],
                  selectedAnnotationId := Some 2000\<rparr>,
          canvas = \<lparr>draggingAnnotationId = None, dragStartPos = None\<rparr>\<rparr>"
    by simp
  then show "annotations (app (handleMouseUp realArith 2000 ?u (handleMouseDown realArith ?e ?s))) =
     [\<lparr>annId = 7, point = \<lparr>px = 100, py = 100\<rparr>, description = ''save'',
       elementType = ''button'', annotationType = Actionable\<rparr>,
      \<lparr>annId = 2000, point = \<lparr>px = 300, py = 400\<rparr>, description = '''',
       elementType = ''manual'', annotationType = General\<rparr>]"
    by (simp add: mathRound_def)
qed

lemma applyUpdates_pointUpdate: "applyUpdates a (pointUpdate p) = a\<lparr>point := p\<rparr>"
  by (simp add: applyUpdates_def pointUpdate_def)

lemma handleMouseMove_dragging:
  "draggingAnnotationId (canvas s) = Some i \<Longrightarrow>
   handleMouseMove e s =
     s\<lparr>app := (app s)\<lparr>annotations :=
        map (\<lambda>anno. if annId anno = i then anno\<lparr>point := roundPoint (pos e)\<rparr> else anno)
          (annotations (app s))\<rparr>\<rparr>"
  by (simp add: handleMouseMove_def updateAnnotation_def applyUpdates_pointUpdate)

lemma release_while_dragging:
  "draggingAnnotationId (canvas s) \<noteq> None \<Longrightarrow> app (handleMouseUp ar now up s) = app s"
  by (simp add: handleMouseUp_def Let_def split: option.splits)

lemma release_far:
  "dragStartPos (canvas s) = Some start \<Longrightarrow> distance ar (pos up) start \<ge> 5 \<Longrightarrow>
   app (handleMouseUp ar now up s) = app s"
  by (simp add: handleMouseUp_def Let_def)

text \<open>
  What a move during a drag of the id \<open>i\<close> does hold to: the store keeps its length,
  every annotation whose id is not \<open>i\<close> stays, and every annotation whose id is \<open>i\<close> gets
  the cursor position, rounded to integers, as its point and keeps its other fields; the
  rest of the session stays, and the release adds and selects nothing.
\<close>

lemma drag_frame_by_id:
  assumes "draggingAnnotationId (canvas s) = Some i"
  shows "length (annotations (app (handleMouseMove e s))) = length (annotations (app s)) \<and>
    (\<forall>k<length (annotations (app s)).
       annId (annotations (app (handleMouseMove e s)) ! k) = annId (annotations (app s) ! k) \<and>
       description (annotations (app (handleMouseMove e s)) ! k) =
         description (annotations (app s) ! k) \<and>
       elementType (annotations (app (handleMouseMove e s)) ! k) =
         elementType (annotations (app s) ! k) \<and>
       annotationType (annotations (app (handleMouseMove e s)) ! k) =
         annotationType (annotations (app s) ! k) \<and>
       (annId (annotations (app s) ! k) = i \<longrightarrow>
          point (annotations (app (handleMouseMove e s)) ! k) =
            \<lparr>px = of_int \<lfloor>px (pos e) + 1 / 2\<rfloor>, py = of_int \<lfloor>py (pos e) + 1 / 2\<rfloor>\<rparr>) \<and>
       (annId (annotations (app s) ! k) \<noteq> i \<longrightarrow>
          annotations (app (handleMouseMove e s)) ! k = annotations (app s) ! k)) \<and>
    displayFilter (app (handleMouseMove e s)) = displayFilter (app s) \<and>
    manualAnnotationType (app (handleMouseMove e s)) = manualAnnotationType (app s) \<and>
    selectedAnnotationId (app (handleMouseMove e s)) = selectedAnnotationId (app s) \<and>
    annotationToDelete (app (handleMouseMove e s)) = annotationToDelete (app s) \<and>
    canvas (handleMouseMove e s) = canvas s \<and>
    (\<forall>ar now up. app (handleMouseUp ar now up (handleMouseMove e s)) = app (handleMouseMove e s))"
proof -
  note m = handleMouseMove_dragging [OF assms, of e]
  have c: "canvas (handleMouseMove e s) = canvas s" by (simp add: m)
  have "draggingAnnotationId (canvas (handleMouseMove e s)) \<noteq> None"
    using assms by (simp add: c)
  then have r: "\<forall>ar now up. app (handleMouseUp ar now up (handleMouseMove e s)) =
      app (handleMouseMove e s)"
    by (simp add: release_while_dragging)
  have a: "annotations (app (handleMouseMove e s)) =
      map (\<lambda>anno. if annId anno = i then anno\<lparr>point := roundPoint (pos e)\<rparr> else anno)
        (annotations (app s))"
    by (simp add: m)
  have o: "displayFilter (app (handleMouseMove e s)) = displayFilter (app s)"
    "manualAnnotationType (app (handleMouseMove e s)) = manualAnnotationType (app s)"
    "selectedAnnotationId (app (handleMouseMove e s)) = selectedAnnotationId (app s)"
    "annotationToDelete (app (handleMouseMove e s)) = annotationToDelete (app s)"
    by (simp_all add: m)
  have l: "length (annotations (app (handleMouseMove e s))) = length (annotations (app s))"
    by (simp add: a)
  have k: "\<forall>k<length (annotations (app s)).
       annId (annotations (app (handleMouseMove e s)) ! k) = annId (annotations (app s) ! k) \<and>
       description (annotations (app (handleMouseMove e s)) ! k) =
         description (annotations (app s) ! k) \<and>
       elementType (annotations (app (handleMouseMove e s)) ! k) =
         elementType (annotations (app s) ! k) \<and>
       annotationType (annotations (app (handleMouseMove e s)) ! k) =
         annotationType (annotations (app s) ! k) \<and>
       (annId (annotations (app s) ! k) = i \<longrightarrow>
          point (annotations (app (handleMouseMove e s)) ! k) =
            \<lparr>px = of_int \<lfloor>px (pos e) + 1 / 2\<rfloor>, py = of_int \<lfloor>py (pos e) + 1 / 2\<rfloor>\<rparr>) \<and>
       (annId (annotations (app s) ! k) \<noteq> i \<longrightarrow>
          annotations (app (handleMouseMove e s)) ! k = annotations (app s) ! k)"
    unfolding a by (simp add: roundPoint_def mathRound_def)
  from l k o c r show ?thesis by blast
qed

lemma twoTabs_detected:
  "detectAndDescribeUI lc 800 600 (\<lambda>index. 1000) twoTabs =
     [\<lparr>annId = 1000, point = \<lparr>px = 90, py = 10\<rparr>, description = ''file'',
       elementType = ''tab'',
       annotationType = (if lc ''tab'' \<in> set ACTIONABLE_TYPES then Actionable else General)\<rparr>,
      \<lparr>annId = 1001, point = \<lparr>px = 190, py = 10\<rparr>, description = ''edit'',
       elementType = ''tab'',
       annotationType = (if lc ''tab'' \<in> set ACTIONABLE_TYPES then Actionable else General)\<rparr>]"
  by (simp add: detectAndDescribeUI_def twoTabs_def map_filter_def mapDetected_def
      invalidBox_def clampedTopLeft_def clampedBottomRight_def elementTypeOrOther_def Let_def)

lemma repeatedIdApp_eq:
  "repeatedIdApp lc =
     \<lparr>annotations =
        [\<lparr>annId = 1000, point = \<lparr>px = 90, py = 10\<rparr>, description = ''file'',
          elementType = ''tab'',
          annotationType = (if lc ''tab'' \<in> set ACTIONABLE_TYPES then Actionable else General)\<rparr>,
         \<lparr>annId = 1001, point = \<lparr>px = 190, py = 10\<rparr>, description = ''edit'',
          elementType = ''tab'',
          annotationType = (if lc ''tab'' \<in> set ACTIONABLE_TYPES then Actionable else General)\<rparr>,
         \<lparr>annId = 1001, point = \<lparr>px = 300, py = 400\<rparr>, description = '''',
          elementType = ''manual'', annotationType = General\<rparr>],
      displayFilter = FilterAll, manualAnnotationType = General,
      selectedAnnotationId = Some 1001, annotationToDelete = None\<rparr>"
  by (simp add: repeatedIdApp_def twoTabs_detected addAnnotation_def detectionDone_def
      imageLoaded_def initialApp_def Let_def)

text \<open>
  C8. In the session with the repeated id 1001, a press on the marker added by hand at
  \<open>(300,400)\<close> starts the drag of the id 1001, and one move to \<open>(500.4, 499.5)\<close> sets the
  point of both annotations with that id to \<open>(500,500)\<close>: the annotation detected at
  \<open>(190,10)\<close>, which was never pressed, moves with the pressed one.
\<close>

theorem drag_moves_every_annotation_with_the_id:
  assumes "exactAtZero ar"
  shows "map (\<lambda>a. (annId a, point a)) (annotations (repeatedIdApp lc)) =
       [(1000, \<lparr>px = 90, py = 10\<rparr>), (1001, \<lparr>px = 190, py = 10\<rparr>),
        (1001, \<lparr>px = 300, py = 400\<rparr>)] \<and>
     draggingAnnotationId (canvas
       (handleMouseDown ar \<lparr>button = 0, pos = \<lparr>px = 300, py = 400\<rparr>\<rparr>
          \<lparr>app = repeatedIdApp lc, canvas = initialCanvas\<rparr>)) = Some 1001 \<and>
     map (\<lambda>a. (annId a, point a))
       (annotations (app
          (handleMouseMove \<lparr>button = 0, pos = \<lparr>px = 500.4, py = 499.5\<rparr>\<rparr>
             (handleMouseDown ar \<lparr>button = 0, pos = \<lparr>px = 300, py = 400\<rparr>\<rparr>
                \<lparr>app = repeatedIdApp lc, canvas = initialCanvas\<rparr>)))) =
       [(1000, \<lparr>px = 90, py = 10\<rparr>), (1001, \<lparr>px = 500, py = 500\<rparr>),
        (1001, \<lparr>px = 500, py = 500\<rparr>)]"
proof -
  let ?p = "\<lparr>px = 300, py = 400\<rparr>"
  let ?s0 = "\<lparr>app = repeatedIdApp lc, canvas = initialCanvas\<rparr>"
  let ?s1 = "handleMouseDown ar \<lparr>button = 0, pos = ?p\<rparr> ?s0"
  note z = distance_same [OF assms, of ?p]
  have 1: "map (\<lambda>a. (annId a, point a)) (annotations (repeatedIdApp lc)) =
       [(1000, \<lparr>px = 90, py = 10\<rparr>), (1001, \<lparr>px = 190, py = 10\<rparr>), (1001, ?p)]"
    by (simp add: repeatedIdApp_eq)
  have s1: "?s1 = ?s0\<lparr>canvas := \<lparr>draggingAnnotationId = Some 1001, dragStartPos = Some ?p\<rparr>\<rparr>"
    using z
    by (simp add: handleMouseDown_def canvasAnnotations_def repeatedIdApp_eq initialCanvas_def
        sortedAnnotations_def compareAnnotations_def filteredAnnotations_def
        getAnnotationAtPos_find Let_def)
  have 2: "draggingAnnotationId (canvas ?s1) = Some 1001" by (simp add: s1)
  have a1: "annotations (app ?s1) = annotations (repeatedIdApp lc)" by (simp add: s1)
  have mv: "annotations (app (handleMouseMove \<lparr>button = 0, pos = \<lparr>px = 500.4, py = 499.5\<rparr>\<rparr> ?s1)) =
      map (\<lambda>anno. if annId anno = 1001
                  then anno\<lparr>point := roundPoint \<lparr>px = 500.4, py = 499.5\<rparr>\<rparr> else anno)
        (annotations (repeatedIdApp lc))"
    unfolding handleMouseMove_dragging [OF 2] a1 [symmetric] by simp
  have 3: "map (\<lambda>a. (annId a, point a))
       (annotations (app (handleMouseMove \<lparr>button = 0, pos = \<lparr>px = 500.4, py = 499.5\<rparr>\<rparr> ?s1))) =
       [(1000, \<lparr>px = 90, py = 10\<rparr>), (1001, \<lparr>px = 500, py = 500\<rparr>),
        (1001, \<lparr>px = 500, py = 500\<rparr>)]"
    unfolding mv by (simp add: repeatedIdApp_eq roundPoint_def mathRound_def)
  from 1 2 3 show ?thesis by blast
qed

theorem drag_moves_every_annotation_with_the_id_witness:
  "exactAtZero realArith \<and>
   map (\<lambda>a. (annId a, point a))
       (annotations (app
          (handleMouseMove \<lparr>button = 0, pos = \<lparr>px = 500.4, py = 499.5\<rparr>\<rparr>
             (handleMouseDown realArith \<lparr>button = 0, pos = \<lparr>px = 300, py = 400\<rparr>\<rparr>
                \<lparr>app = repeatedIdApp asciiLowerCase, canvas = initialCanvas\<rparr>)))) =
       [(1000, \<lparr>px = 90, py = 10\<rparr>), (1001, \<lparr>px = 500, py = 500\<rparr>),
        (1001, \<lparr>px = 500, py = 500\<rparr>)]"
  using drag_moves_every_annotation_with_the_id [OF realArith_exactAtZero, of asciiLowerCase]
    realArith_exactAtZero
  by blast

section \<open>Hit testing and the display filter\<close>

lemma find_filter: "List.find P (filter Q xs) = List.find (\<lambda>a. Q a \<and> P a) xs"
  by (induction xs) auto

lemma hit_find:
  "getAnnotationAtPos ar (canvasAnnotations s) p =
     List.find (\<lambda>a. passesFilter (displayFilter (app s)) a \<and> distance ar p (point a) \<le> 14)
       (rev (sortedAnnotations (annotations (app s))))"
  by (simp add: getAnnotationAtPos_find canvasAnnotations_def filteredAnnotations_filter
      rev_filter find_filter)

lemma hit_visible:
  assumes "getAnnotationAtPos ar (canvasAnnotations s) p = Some a"
  shows "a \<in> set (annotations (app s))" "passesFilter (displayFilter (app s)) a"
    "distance ar p (point a) \<le> 14"
proof -
  from assms have "a \<in> set (rev (sortedAnnotations (annotations (app s)))) \<and>
      (passesFilter (displayFilter (app s)) a \<and> distance ar p (point a) \<le> 14)"
    unfolding hit_find by (rule find_Some_member)
  then show "a \<in> set (annotations (app s))" "passesFilter (displayFilter (app s)) a"
    "distance ar p (point a) \<le> 14"
    by (simp_all add: set_sortedAnnotations)
qed

lemma dispatch_dragging:
  assumes "draggingAnnotationId (canvas (dispatch ar now ev s)) = Some i"
    and "draggingAnnotationId (canvas s) \<noteq> Some i"
  shows "\<exists>a p. getAnnotationAtPos ar (canvasAnnotations s) p = Some a \<and> annId a = i"
proof (cases ev)
  case (OnMouseDown e)
  with assms show ?thesis
    by (auto simp: handleMouseDown_def Let_def split: if_splits option.splits)
next
  case (OnMouseMove e)
  with assms show ?thesis
    by (auto simp: handleMouseMove_def split: option.splits)
next
  case (OnMouseUp e)
  with assms show ?thesis
    by (auto simp: handleMouseUp_def Let_def split: if_splits)
next
  case OnMouseLeave
  with assms show ?thesis by (simp add: handleMouseLeave_def)
next
  case (OnContextMenu e)
  with assms show ?thesis
    by (auto simp: handleContextMenu_def split: option.splits)
qed

lemma dispatch_delete_request:
  assumes "annotationToDelete (app (dispatch ar now ev s)) = Some i"
    and "annotationToDelete (app s) \<noteq> Some i"
  shows "\<exists>a p. getAnnotationAtPos ar (canvasAnnotations s) p = Some a \<and> annId a = i"
proof (cases ev)
  case (OnMouseDown e)
  with assms show ?thesis
    by (auto simp: handleMouseDown_def Let_def split: if_splits option.splits)
next
  case (OnMouseMove e)
  with assms show ?thesis
    by (auto simp: handleMouseMove_def updateAnnotation_def split: option.splits)
next
  case (OnMouseUp e)
  with assms show ?thesis
    by (auto simp: handleMouseUp_def addAnnotation_def Let_def split: if_splits option.splits)
next
  case OnMouseLeave
  with assms show ?thesis by (simp add: handleMouseLeave_def)
next
  case (OnContextMenu e)
  with assms show ?thesis
    by (auto simp: handleContextMenu_def handleRequestDelete_def split: option.splits)
qed

lemma dispatch_selection:
  assumes "selectedAnnotationId (app (dispatch ar now ev s)) = Some i"
    and "selectedAnnotationId (app s) \<noteq> Some i"
  shows "(\<exists>a p. getAnnotationAtPos ar (canvasAnnotations s) p = Some a \<and> annId a = i) \<or>
     (i = now \<and> length (annotations (app (dispatch ar now ev s))) = Suc (length (annotations (app s))))"
proof (cases ev)
  case (OnMouseDown e)
  with assms show ?thesis
    by (auto simp: handleMouseDown_def Let_def split: if_splits option.splits)
next
  case (OnMouseMove e)
  with assms show ?thesis
    by (auto simp: handleMouseMove_def updateAnnotation_def split: option.splits)
next
  case (OnMouseUp e)
  with assms show ?thesis
    by (auto simp: handleMouseUp_def addAnnotation_def Let_def split: if_splits option.splits)
next
  case OnMouseLeave
  with assms show ?thesis by (simp add: handleMouseLeave_def)
next
  case (OnContextMenu e)
  with assms show ?thesis
    by (auto simp: handleContextMenu_def handleRequestDelete_def split: option.splits)
qed

lemma dispatch_keeps:
  assumes "b \<in> set (annotations (app s))"
    and "draggingAnnotationId (canvas s) \<noteq> Some (annId b)"
  shows "b \<in> set (annotations (app (dispatch ar now ev s)))"
proof (cases ev)
  case (OnMouseDown e)
  with assms show ?thesis
    by (auto simp: handleMouseDown_def Let_def split: if_splits option.splits)
next
  case (OnMouseMove e)
  show ?thesis
  proof (cases "draggingAnnotationId (canvas s)")
    case None
    with assms OnMouseMove show ?thesis by (simp add: handleMouseMove_def)
  next
    case (Some i)
    with assms(2) have "annId b \<noteq> i" by auto
    with assms(1) have "b \<in> (\<lambda>anno. if annId anno = i then applyUpdates anno (pointUpdate (roundPoint (pos e))) else anno) ` set (annotations (app s))"
      by (intro image_eqI [of _ _ b]) simp_all
    with Some OnMouseMove show ?thesis
      by (simp add: handleMouseMove_def updateAnnotation_def)
  qed
next
  case (OnMouseUp e)
  with assms show ?thesis
    by (auto simp: handleMouseUp_def addAnnotation_def Let_def split: if_splits option.splits)
next
  case OnMouseLeave
  with assms show ?thesis by (simp add: handleMouseLeave_def)
next
  case (OnContextMenu e)
  with assms show ?thesis
    by (auto simp: handleContextMenu_def handleRequestDelete_def split: option.splits)
qed

text \<open>
  What the handlers do hold to. The hit test runs over the annotations that pass the
  display filter, from the last of the sorted order to the first, and so never returns
  an annotation the filter excludes. Every id that an event newly records as dragged, as
  requested for deletion or as selected is the id of an annotation of the store that
  passes the filter, or, for the selection, the id of the annotation the event has just
  added. An excluded annotation whose id no other annotation shares does not become
  dragged, selected or requested for deletion by any event, and stays in the store.
\<close>

lemma gesture_targets_pass_filter:
  "getAnnotationAtPos ar (canvasAnnotations s) p =
     List.find (\<lambda>a. passesFilter (displayFilter (app s)) a \<and> distance ar p (point a) \<le> 14)
       (rev (sortedAnnotations (annotations (app s)))) \<and>
   (\<forall>b. \<not> passesFilter (displayFilter (app s)) b \<longrightarrow>
      getAnnotationAtPos ar (canvasAnnotations s) p \<noteq> Some b) \<and>
   (\<forall>i. draggingAnnotationId (canvas (dispatch ar now ev s)) = Some i \<and>
        draggingAnnotationId (canvas s) \<noteq> Some i \<longrightarrow>
        (\<exists>a\<in>set (annotations (app s)). annId a = i \<and> passesFilter (displayFilter (app s)) a)) \<and>
   (\<forall>i. annotationToDelete (app (dispatch ar now ev s)) = Some i \<and>
        annotationToDelete (app s) \<noteq> Some i \<longrightarrow>
        (\<exists>a\<in>set (annotations (app s)). annId a = i \<and> passesFilter (displayFilter (app s)) a)) \<and>
   (\<forall>i. selectedAnnotationId (app (dispatch ar now ev s)) = Some i \<and>
        selectedAnnotationId (app s) \<noteq> Some i \<longrightarrow>
        (\<exists>a\<in>set (annotations (app s)). annId a = i \<and> passesFilter (displayFilter (app s)) a) \<or>
        (i = now \<and>
         length (annotations (app (dispatch ar now ev s))) = Suc (length (annotations (app s))))) \<and>
   (\<forall>b\<in>set (annotations (app s)).
      \<not> passesFilter (displayFilter (app s)) b \<and>
      (\<forall>a\<in>set (annotations (app s)). annId a = annId b \<longrightarrow> a = b) \<and> now \<noteq> annId b \<longrightarrow>
      (draggingAnnotationId (canvas (dispatch ar now ev s)) = Some (annId b) \<longrightarrow>
         draggingAnnotationId (canvas s) = Some (annId b)) \<and>
      (annotationToDelete (app (dispatch ar now ev s)) = Some (annId b) \<longrightarrow>
         annotationToDelete (app s) = Some (annId b)) \<and>
      (selectedAnnotationId (app (dispatch ar now ev s)) = Some (annId b) \<longrightarrow>
         selectedAnnotationId (app s) = Some (annId b)) \<and>
      (draggingAnnotationId (canvas s) \<noteq> Some (annId b) \<longrightarrow>
         b \<in> set (annotations (app (dispatch ar now ev s)))))"
proof -
  let ?vis = "\<lambda>i. \<exists>a\<in>set (annotations (app s)). annId a = i \<and> passesFilter (displayFilter (app s)) a"
  have 1: "getAnnotationAtPos ar (canvasAnnotations s) p =
     List.find (\<lambda>a. passesFilter (displayFilter (app s)) a \<and> distance ar p (point a) \<le> 14)
       (rev (sortedAnnotations (annotations (app s))))"
    by (rule hit_find)
  have 2: "\<forall>b. \<not> passesFilter (displayFilter (app s)) b \<longrightarrow>
      getAnnotationAtPos ar (canvasAnnotations s) p \<noteq> Some b"
    using hit_visible(2) by blast
  have vis: "?vis i" if "\<exists>a p. getAnnotationAtPos ar (canvasAnnotations s) p = Some a \<and> annId a = i"
    for i
    using that hit_visible(1,2) by blast
  have 3: "\<forall>i. draggingAnnotationId (canvas (dispatch ar now ev s)) = Some i \<and>
        draggingAnnotationId (canvas s) \<noteq> Some i \<longrightarrow> ?vis i"
    using dispatch_dragging vis by blast
  have 4: "\<forall>i. annotationToDelete (app (dispatch ar now ev s)) = Some i \<and>
        annotationToDelete (app s) \<noteq> Some i \<longrightarrow> ?vis i"
    using dispatch_delete_request vis by blast
  have 5: "\<forall>i. selectedAnnotationId (app (dispatch ar now ev s)) = Some i \<and>
        selectedAnnotationId (app s) \<noteq> Some i \<longrightarrow>
        ?vis i \<or>
        (i = now \<and>
         length (annotations (app (dispatch ar now ev s))) = Suc (length (annotations (app s))))"
  proof (intro allI impI)
    fix i
    assume h: "selectedAnnotationId (app (dispatch ar now ev s)) = Some i \<and>
        selectedAnnotationId (app s) \<noteq> Some i"
    then have "(\<exists>a p. getAnnotationAtPos ar (canvasAnnotations s) p = Some a \<and> annId a = i) \<or>
     (i = now \<and> length (annotations (app (dispatch ar now ev s))) = Suc (length (annotations (app s))))"
      by (intro dispatch_selection) simp_all
    then show "?vis i \<or>
        (i = now \<and>
         length (annotations (app (dispatch ar now ev s))) = Suc (length (annotations (app s))))"
      using vis by blast
  qed
  have 6: "\<forall>b\<in>set (annotations (app s)).
      \<not> passesFilter (displayFilter (app s)) b \<and>
      (\<forall>a\<in>set (annotations (app s)). annId a = annId b \<longrightarrow> a = b) \<and> now \<noteq> annId b \<longrightarrow>
      (draggingAnnotationId (canvas (dispatch ar now ev s)) = Some (annId b) \<longrightarrow>
         draggingAnnotationId (canvas s) = Some (annId b)) \<and>
      (annotationToDelete (app (dispatch ar now ev s)) = Some (annId b) \<longrightarrow>
         annotationToDelete (app s) = Some (annId b)) \<and>
      (selectedAnnotationId (app (dispatch ar now ev s)) = Some (annId b) \<longrightarrow>
         selectedAnnotationId (app s) = Some (annId b)) \<and>
      (draggingAnnotationId (canvas s) \<noteq> Some (annId b) \<longrightarrow>
         b \<in> set (annotations (app (dispatch ar now ev s))))"
  proof (intro ballI impI)
    fix b
    assume b: "b \<in> set (annotations (app s))"
      and h: "\<not> passesFilter (displayFilter (app s)) b \<and>
      (\<forall>a\<in>set (annotations (app s)). annId a = annId b \<longrightarrow> a = b) \<and> now \<noteq> annId b"
    from h have nv: "\<not> ?vis (annId b)" by blast
    have d: "draggingAnnotationId (canvas (dispatch ar now ev s)) = Some (annId b) \<longrightarrow>
         draggingAnnotationId (canvas s) = Some (annId b)"
      using 3 nv by blast
    have r: "annotationToDelete (app (dispatch ar now ev s)) = Some (annId b) \<longrightarrow>
         annotationToDelete (app s) = Some (annId b)"
      using 4 nv by blast
    have t: "selectedAnnotationId (app (dispatch ar now ev s)) = Some (annId b) \<longrightarrow>
         selectedAnnotationId (app s) = Some (annId b)"
      using 5 nv h by blast
    have k: "draggingAnnotationId (canvas s) \<noteq> Some (annId b) \<longrightarrow>
         b \<in> set (annotations (app (dispatch ar now ev s)))"
      using dispatch_keeps [OF b] by blast
    from d r t k show "(draggingAnnotationId (canvas (dispatch ar now ev s)) = Some (annId b) \<longrightarrow>
         draggingAnnotationId (canvas s) = Some (annId b)) \<and>
      (annotationToDelete (app (dispatch ar now ev s)) = Some (annId b) \<longrightarrow>
         annotationToDelete (app s) = Some (annId b)) \<and>
      (selectedAnnotationId (app (dispatch ar now ev s)) = Some (annId b) \<longrightarrow>
         selectedAnnotationId (app s) = Some (annId b)) \<and>
      (draggingAnnotationId (canvas s) \<noteq> Some (annId b) \<longrightarrow>
         b \<in> set (annotations (app (dispatch ar now ev s))))"
      by blast
  qed
  from 1 2 3 4 5 6 show ?thesis by blast
qed

text \<open>
  C10. In the session with the repeated id 1001 and the filter set to general, only the
  annotation added by hand is shown, and the detected tab at \<open>(190,10)\<close>, which has the same
  id, is excluded. A press on the shown marker and a move set the point of the excluded
  annotation too, and a right click on the shown marker followed by the confirmation
  deletes the excluded annotation with it.
\<close>

theorem shared_id_carries_gestures_to_excluded_annotation:
  assumes "exactAtZero ar" and "lc ''tab'' = ''tab''"
  shows "annotations (setDisplayFilter FilterGeneral (repeatedIdApp lc)) =
       [\<lparr>annId = 1000, point = \<lparr>px = 90, py = 10\<rparr>, description = ''file'',
         elementType = ''tab'', annotationType = Actionable\<rparr>,
        \<lparr>annId = 1001, point = \<lparr>px = 190, py = 10\<rparr>, description = ''edit'',
         elementType = ''tab'', annotationType = Actionable\<rparr>,
        \<lparr>annId = 1001, point = \<lparr>px = 300, py = 400\<rparr>, description = '''',
         elementType = ''manual'', annotationType = General\<rparr>] \<and>
     \<not> passesFilter FilterGeneral
         \<lparr>annId = 1001, point = \<lparr>px = 190, py = 10\<rparr>, description = ''edit'',
          elementType = ''tab'', annotationType = Actionable\<rparr> \<and>
     canvasAnnotations
       \<lparr>app = setDisplayFilter FilterGeneral (repeatedIdApp lc), canvas = initialCanvas\<rparr> =
       [\<lparr>annId = 1001, point = \<lparr>px = 300, py = 400\<rparr>, description = '''',
         elementType = ''manual'', annotationType = General\<rparr>] \<and>
     annotations (app
       (handleMouseMove \<lparr>button = 0, pos = \<lparr>px = 500.4, py = 499.5\<rparr>\<rparr>
          (handleMouseDown ar \<lparr>button = 0, pos = \<lparr>px = 300, py = 400\<rparr>\<rparr>
             \<lparr>app = setDisplayFilter FilterGeneral (repeatedIdApp lc),
              canvas = initialCanvas\<rparr>))) =
       [\<lparr>annId = 1000, point = \<lparr>px = 90, py = 10\<rparr>, description = ''file'',
         elementType = ''tab'', annotationType = Actionable\<rparr>,
        \<lparr>annId = 1001, point = \<lparr>px = 500, py = 500\<rparr>, description = ''edit'',
         elementType = ''tab'', annotationType = Actionable\<rparr>,
        \<lparr>annId = 1001, point = \<lparr>px = 500, py = 500\<rparr>, description = '''',
         elementType = ''manual'', annotationType = General\<rparr>] \<and>
     annotations (handleConfirmDelete (app
       (handleContextMenu ar \<lparr>button = 2, pos = \<lparr>px = 300, py = 400\<rparr>\<rparr>
          \<lparr>app = setDisplayFilter FilterGeneral (repeatedIdApp lc),
           canvas = initialCanvas\<rparr>))) =
       [\<lparr>annId = 1000, point = \<lparr>px = 90, py = 10\<rparr>, description = ''file'',
         elementType = ''tab'', annotationType = Actionable\<rparr>]"
proof -
  let ?b1 = "\<lparr>annId = 1000, point = \<lparr>px = 90, py = 10\<rparr>, description = ''file'',
         elementType = ''tab'', annotationType = Actionable\<rparr>"
  let ?h = "\<lparr>annId = 1001, point = \<lparr>px = 190, py = 10\<rparr>, description = ''edit'',
         elementType = ''tab'', annotationType = Actionable\<rparr>"
  let ?m = "\<lparr>annId = 1001, point = \<lparr>px = 300, py = 400\<rparr>, description = '''',
         elementType = ''manual'', annotationType = General\<rparr>"
  let ?p = "\<lparr>px = 300, py = 400\<rparr>"
  let ?a0 = "setDisplayFilter FilterGeneral (repeatedIdApp lc)"
  let ?s0 = "\<lparr>app = ?a0, canvas = initialCanvas\<rparr>"
  let ?s1 = "handleMouseDown ar \<lparr>button = 0, pos = ?p\<rparr> ?s0"
  let ?mv = "\<lparr>button = 0, pos = \<lparr>px = 500.4, py = 499.5\<rparr>\<rparr>"
  note z = distance_same [OF assms(1), of ?p]
  have a0: "?a0 = \<lparr>annotations = [?b1, ?h, ?m], displayFilter = FilterGeneral,
      manualAnnotationType = General, selectedAnnotationId = Some 1001,
      annotationToDelete = None\<rparr>"
    using assms(2) by (simp add: setDisplayFilter_def repeatedIdApp_eq ACTIONABLE_TYPES_def)
  have 1: "annotations ?a0 = [?b1, ?h, ?m]" by (simp add: a0)
  have 2: "\<not> passesFilter FilterGeneral ?h" by (simp add: passesFilter_def)
  have 3: "canvasAnnotations ?s0 = [?m]"
    by (simp add: canvasAnnotations_def a0 sortedAnnotations_def compareAnnotations_def
        filteredAnnotations_def passesFilter_def)
  have hit: "getAnnotationAtPos ar (canvasAnnotations ?s0) ?p = Some ?m"
    unfolding 3 using z by (simp add: getAnnotationAtPos_find)
  have d: "draggingAnnotationId (canvas ?s1) = Some 1001" and a1: "app ?s1 = ?a0"
    using hit by (simp_all add: handleMouseDown_def Let_def)
  have "annotations (app (handleMouseMove ?mv ?s1)) =
      map (\<lambda>anno. if annId anno = 1001
                  then anno\<lparr>point := roundPoint \<lparr>px = 500.4, py = 499.5\<rparr>\<rparr> else anno)
        (annotations (app ?s1))"
    unfolding handleMouseMove_dragging [OF d] by simp
  then have 4: "annotations (app (handleMouseMove ?mv ?s1)) =
      [?b1, ?h\<lparr>point := \<lparr>px = 500, py = 500\<rparr>\<rparr>, ?m\<lparr>point := \<lparr>px = 500, py = 500\<rparr>\<rparr>]"
    unfolding a1 by (simp add: a0 roundPoint_def mathRound_def)
  have "app (handleContextMenu ar \<lparr>button = 2, pos = ?p\<rparr> ?s0) =
      handleRequestDelete 1001 ?a0"
    using hit by (simp add: handleContextMenu_def)
  then have 5: "annotations (handleConfirmDelete (app
       (handleContextMenu ar \<lparr>button = 2, pos = ?p\<rparr> ?s0))) = [?b1]"
    by (simp add: a0 handleRequestDelete_def handleConfirmDelete_def deleteAnnotation_def)
  from 1 2 3 4 5 show ?thesis by simp
qed

theorem shared_id_carries_gestures_to_excluded_annotation_witness:
  "exactAtZero realArith \<and> asciiLowerCase ''tab'' = ''tab'' \<and>
   annotations (handleConfirmDelete (app
       (handleContextMenu realArith \<lparr>button = 2, pos = \<lparr>px = 300, py = 400\<rparr>\<rparr>
          \<lparr>app = setDisplayFilter FilterGeneral (repeatedIdApp asciiLowerCase),
           canvas = initialCanvas\<rparr>))) =
       [\<lparr>annId = 1000, point = \<lparr>px = 90, py = 10\<rparr>, description = ''file'',
         elementType = ''tab'', annotationType = Actionable\<rparr>]"
proof -
  have l: "asciiLowerCase ''tab'' = ''tab''"
    by (simp add: asciiLowerCase_def asciiLowerChar_def)
  from shared_id_carries_gestures_to_excluded_annotation
      [of realArith asciiLowerCase, OF realArith_exactAtZero l]
    realArith_exactAtZero l
  show ?thesis by blast
qed

section \<open>Identifiers\<close>

lemma mapDetected_annId: "mapDetected lc w h now i obj = Some a \<Longrightarrow> annId a = now + int i"
  by (auto simp: mapDetected_def Let_def split: option.splits if_splits)

text \<open>Within one batch the ids are distinct when the clock does not go back.\<close>

lemma batch_ids_distinct:
  assumes mono: "\<forall>i j. i \<le> j \<longrightarrow> clock i \<le> clock j"
  shows "distinct (map annId (detectAndDescribeUI lc w h clock objs))"
proof -
  let ?kept = "filter (\<lambda>(i, obj). \<not> rejectCriterion w h obj) (enumerate 0 objs)"
  let ?f = "\<lambda>i. clock i + int i"
  have "map annId (detectAndDescribeUI lc w h clock objs) =
      map (\<lambda>x. annId (the (mapDetected lc w h (clock (fst x)) (fst x) (snd x)))) ?kept"
    by (simp add: detectAndDescribeUI_kept case_prod_beta comp_def)
  also have "\<dots> = map (\<lambda>x. ?f (fst x)) ?kept"
  proof (rule map_cong [OF refl])
    fix x assume "x \<in> set ?kept"
    then have "\<not> rejectCriterion w h (snd x)" by auto
    then obtain a where "mapDetected lc w h (clock (fst x)) (fst x) (snd x) = Some a"
      using mapDetected_None_iff [of lc w h "clock (fst x)" "fst x" "snd x"] by auto
    then show "annId (the (mapDetected lc w h (clock (fst x)) (fst x) (snd x))) = ?f (fst x)"
      by (simp add: mapDetected_annId)
  qed
  also have "\<dots> = map ?f (map fst ?kept)" by simp
  finally have ids: "map annId (detectAndDescribeUI lc w h clock objs) = map ?f (map fst ?kept)" .
  have "distinct (map fst (enumerate 0 objs))" by simp
  then have d: "distinct (map fst ?kept)" by (rule distinct_map_filter)
  have "inj ?f"
  proof (rule injI)
    fix i j assume e: "clock i + int i = clock j + int j"
    show "i = j"
    proof (rule ccontr)
      assume "i \<noteq> j"
      then consider "i < j" | "j < i" by linarith
      then show False
      proof cases
        case 1
        with mono have "clock i \<le> clock j" by simp
        with 1 e show False by simp
      next
        case 2
        with mono have "clock j \<le> clock i" by simp
        with 2 e show False by simp
      qed
    qed
  qed
  then have "inj_on ?f (set (map fst ?kept))" by (rule inj_on_subset) simp
  with d show ?thesis unfolding ids by (simp only: distinct_map)
qed

lemma batch_id_at:
  assumes "k < length objs" and "\<not> rejectCriterion w h (objs ! k)"
  shows "clock k + int k \<in> annId ` set (detectAndDescribeUI lc w h clock objs)"
proof -
  from assms(2) obtain a where a: "mapDetected lc w h (clock k) k (objs ! k) = Some a"
    using mapDetected_None_iff [of lc w h "clock k" k "objs ! k"] by auto
  have "(k, objs ! k) \<in> set (enumerate 0 objs)"
    using assms(1) by (simp add: in_set_enumerate_eq)
  with assms(2) have "(k, objs ! k) \<in>
      set (filter (\<lambda>(i, obj). \<not> rejectCriterion w h obj) (enumerate 0 objs))"
    by simp
  then have "(\<lambda>(i, obj). the (mapDetected lc w h (clock i) i obj)) (k, objs ! k) \<in>
      set (detectAndDescribeUI lc w h clock objs)"
    unfolding detectAndDescribeUI_kept set_map by (rule imageI)
  with a have "a \<in> set (detectAndDescribeUI lc w h clock objs)" by simp
  moreover from a have "annId a = clock k + int k" by (rule mapDetected_annId)
  ultimately show ?thesis by force
qed

text \<open>
  An annotation added by hand at the clock reading that is the sum of a kept box's reading
  and its index repeats the id of that box.
\<close>

lemma manual_add_collides_with_batch:
  assumes "k < length objs" and "\<not> rejectCriterion w h (objs ! k)"
  shows "\<not> distinct (map annId (annotations
           (addAnnotation (clock k + int k) p
              (detectionDone (detectAndDescribeUI lc w h clock objs) a))))"
proof -
  have "map annId (annotations
           (addAnnotation (clock k + int k) p
              (detectionDone (detectAndDescribeUI lc w h clock objs) a))) =
        map annId (detectAndDescribeUI lc w h clock objs) @ [clock k + int k]"
    by (simp add: addAnnotation_def detectionDone_def Let_def)
  moreover have "clock k + int k \<in> set (map annId (detectAndDescribeUI lc w h clock objs))"
    using batch_id_at [OF assms] by simp
  ultimately show ?thesis by simp
qed

text \<open>
  C9. Ids are clock readings. A batch of two accepted boxes built at the reading 1000
  gets the ids 1000 and 1001, and an annotation added by hand at the reading 1001 gets
  the id 1001 again; two annotations added by hand at the same reading 5000 both get the
  id 5000. The lower-case function plays no part.
\<close>

theorem timestamp_ids_collide:
  "(\<forall>lc. map annId
     (annotations
        (addAnnotation 1001 \<lparr>px = 300, py = 400\<rparr>
           (detectionDone
              (detectAndDescribeUI lc 800 600 (\<lambda>index. 1000)
                 [\<lparr>topLeft = Some \<lparr>px = 10, py = 10\<rparr>, bottomRight = Some \<lparr>px = 90, py = 40\<rparr>,
                   rawDescription = ''file'', rawElementType = Some ''tab''\<rparr>,
                  \<lparr>topLeft = Some \<lparr>px = 100, py = 10\<rparr>, bottomRight = Some \<lparr>px = 190, py = 40\<rparr>,
                   rawDescription = ''edit'', rawElementType = Some ''tab''\<rparr>])
              (imageLoaded
                 \<lparr>annotations = [], displayFilter = FilterAll, manualAnnotationType = General,
                  selectedAnnotationId = None, annotationToDelete = None\<rparr>)))) =
     [1000, 1001, 1001]) \<and>
   map annId
     (annotations
        (addAnnotation 5000 \<lparr>px = 30, py = 40\<rparr>
           (addAnnotation 5000 \<lparr>px = 300, py = 400\<rparr>
              \<lparr>annotations = [], displayFilter = FilterAll, manualAnnotationType = General,
               selectedAnnotationId = None, annotationToDelete = None\<rparr>))) =
     [5000, 5000]"
  by (simp add: addAnnotation_def detectionDone_def imageLoaded_def detectAndDescribeUI_def
      map_filter_def mapDetected_def invalidBox_def Let_def)

end
